theory Spec2Isabelle
  imports Complex_Main "HOL-Library.AList" "HOL-Library.Multiset"
    "HOL-Library.Product_Lexorder" "HOL-Library.List_Lexorder"
begin

section \<open>Data model (models.py, schemas.py)\<close>

text \<open>
  The two tables of \<^verbatim>\<open>models.py\<close>. A field \<^verbatim>\<open>x\<close> of class \<^verbatim>\<open>Line\<close> is \<open>l_x\<close>, a field
  \<^verbatim>\<open>x\<close> of class \<^verbatim>\<open>Station\<close> is \<open>s_x\<close> (both classes have \<^verbatim>\<open>id\<close> and \<^verbatim>\<open>name\<close>, and \<open>id\<close> is
  HOL's identity). \<^verbatim>\<open>Station.distance_from_previous_station\<close> is read nowhere in
  \<^verbatim>\<open>main.py\<close> and is left out. Python's integers are \<open>int\<close>.
\<close>

record line =
  l_id :: int
  l_name :: string
  l_color :: string

record station =
  s_id :: int
  s_name :: string
  s_line_id :: int
  s_station_number_on_line :: int
  s_is_interchange :: bool

text \<open>The database session: what \<^verbatim>\<open>db.query(models.Station).all()\<close> and
  \<^verbatim>\<open>db.query(models.Line).all()\<close> return.\<close>

record session =
  db_stations :: "station list"
  db_lines :: "line list"

text \<open>
  The weight dictionary of an edge. Both kinds of edge have the keys \<^verbatim>\<open>stations\<close>,
  \<^verbatim>\<open>time\<close> and \<^verbatim>\<open>fare\<close>; a ride edge has \<^verbatim>\<open>line_id\<close> besides, a transfer edge has
  \<^verbatim>\<open>line_change\<close>, \<^verbatim>\<open>from_line_id\<close> and \<^verbatim>\<open>to_line_id\<close>. A key that is absent is \<open>None\<close>.
  The floats of the program (2.5, 5.0, 2.0, 10.0 and their sums) are multiples of 0.5
  far below \<open>2^53\<close>, where binary64 arithmetic is exact; they are \<open>real\<close> here.
\<close>

record edge_weights =
  e_stations :: int
  e_time :: real
  e_fare :: real
  e_line_id :: "int option"
  e_line_change :: "bool option"
  e_from_line_id :: "int option"
  e_to_line_id :: "int option"

text \<open>\<^verbatim>\<open>schemas.LineChangeDetail\<close>, \<^verbatim>\<open>schemas.RouteRequest\<close> and the dictionary that
  \<^verbatim>\<open>find_shortest_path\<close> returns (the fields of \<^verbatim>\<open>schemas.RouteResponse\<close>).\<close>

record line_change_detail =
  from_line :: string
  to_line :: string
  at_station :: string

record route_request =
  source :: string
  destination :: string

record route_response =
  route :: "string list"
  totalStations :: int
  totalFare :: real
  interchanges :: "string list"
  estimatedTime :: string
  lineChanges :: "line_change_detail list"

datatype py_error = KeyError | AttributeError | ValidationError

datatype http_exception = HTTPException nat string

text \<open>
  \<^verbatim>\<open>class MetroGraph\<close>. The three dictionaries are association lists in insertion order
  (\<open>AList.update\<close> overwrites in place or appends, as a Python dict does).
  \<open>line_table\<close> is the table against which the ORM relationship \<^verbatim>\<open>Station.line\<close> of the
  stored station objects is resolved.
\<close>

type_synonym adjacency = "(int \<times> (int \<times> edge_weights) list) list"

record metro_graph =
  graph :: adjacency
  station_map :: "(string \<times> station list) list"
  station_id_to_obj :: "(int \<times> station) list"
  line_table :: "line list"

section \<open>MetroGraph._build_graph\<close>

text \<open>\<^verbatim>\<open>d[k]\<close> on a \<^verbatim>\<open>defaultdict(list)\<close> and \<^verbatim>\<open>d[k].append(x)\<close>.\<close>

definition dd_get :: "('k \<times> 'v list) list \<Rightarrow> 'k \<Rightarrow> 'v list" where
  "dd_get d k = (case map_of d k of None \<Rightarrow> [] | Some vs \<Rightarrow> vs)"

definition dd_append :: "('k \<times> 'v list) list \<Rightarrow> 'k \<Rightarrow> 'v \<Rightarrow> ('k \<times> 'v list) list" where
  "dd_append d k x = AList.update k (dd_get d k @ [x]) d"

text \<open>Lines 43-45: the name index and the id index.\<close>

definition populate_station_map :: "station list \<Rightarrow> (string \<times> station list) list" where
  "populate_station_map sts = fold (\<lambda>s m. dd_append m (s_name s) s) sts []"

definition populate_station_id_to_obj :: "station list \<Rightarrow> (int \<times> station) list" where
  "populate_station_id_to_obj sts = fold (\<lambda>s m. AList.update (s_id s) s m) sts []"

text \<open>Lines 57-69: the weights of the edge that leaves station \<open>s\<close> along line \<open>l\<close>.\<close>

definition ride_edge :: "station \<Rightarrow> line \<Rightarrow> edge_weights" where
  "ride_edge s l =
     \<lparr>e_stations = 1, e_time = 2.5,
      e_fare = (if s_station_number_on_line s \<ge> 2 then 5.0 else 0.0),
      e_line_id = Some (l_id l), e_line_change = None,
      e_from_line_id = None, e_to_line_id = None\<rparr>"

text \<open>Lines 52-69: the loop over \<^verbatim>\<open>range(len(sorted_stations) - 1)\<close> takes the consecutive
  pairs of the sorted list in order.\<close>

fun add_ride_edges :: "line \<Rightarrow> station list \<Rightarrow> adjacency \<Rightarrow> adjacency" where
  "add_ride_edges l (s1 # s2 # rest) gr =
     add_ride_edges l (s2 # rest)
       (dd_append (dd_append gr (s_id s1) (s_id s2, ride_edge s1 l))
          (s_id s2) (s_id s1, ride_edge s2 l))"
| "add_ride_edges l [s1] gr = gr"
| "add_ride_edges l [] gr = gr"

text \<open>Lines 50-51: Python's \<^verbatim>\<open>sorted\<close> is stable, as \<open>sort_key\<close> is.\<close>

definition sorted_stations :: "station list \<Rightarrow> line \<Rightarrow> station list" where
  "sorted_stations sts l =
     sort_key s_station_number_on_line (filter (\<lambda>s. s_line_id s = l_id l) sts)"

definition add_line :: "station list \<Rightarrow> line \<Rightarrow> adjacency \<Rightarrow> adjacency" where
  "add_line sts l gr = add_ride_edges l (sorted_stations sts l) gr"

text \<open>Lines 84-99: the weights of the transfer edge from \<open>s1\<close> to \<open>s2\<close>.\<close>

definition transfer_edge :: "station \<Rightarrow> station \<Rightarrow> edge_weights" where
  "transfer_edge s1 s2 =
     \<lparr>e_stations = 0, e_time = 5.0, e_fare = 2.0,
      e_line_id = None, e_line_change = Some True,
      e_from_line_id = Some (s_line_id s1), e_to_line_id = Some (s_line_id s2)\<rparr>"

text \<open>Lines 77-99: the inner loop, \<open>s1\<close> against every later member of the group.\<close>

fun connect_one :: "station \<Rightarrow> station list \<Rightarrow> adjacency \<Rightarrow> adjacency" where
  "connect_one s1 [] gr = gr"
| "connect_one s1 (s2 # rest) gr =
     connect_one s1 rest
       (if s_line_id s1 \<noteq> s_line_id s2
        then dd_append (dd_append gr (s_id s1) (s_id s2, transfer_edge s1 s2))
               (s_id s2) (s_id s1, transfer_edge s2 s1)
        else gr)"

text \<open>Lines 76-77: the outer loop; index \<open>j\<close> runs over the members after index \<open>i\<close>.\<close>

fun connect_all :: "station list \<Rightarrow> adjacency \<Rightarrow> adjacency" where
  "connect_all [] gr = gr"
| "connect_all (s1 # rest) gr = connect_all rest (connect_one s1 rest gr)"

text \<open>Lines 73-75: one item of \<^verbatim>\<open>self.station_map.items()\<close>.\<close>

definition add_transfers :: "string \<times> station list \<Rightarrow> adjacency \<Rightarrow> adjacency" where
  "add_transfers item gr =
     (if length (snd item) > 1 \<and> list_all s_is_interchange (snd item)
      then connect_all (snd item) gr else gr)"

definition build_graph :: "session \<Rightarrow> metro_graph" where
  "build_graph db =
     (let sm = populate_station_map (db_stations db);
          gr1 = fold (add_line (db_stations db)) (db_lines db) []
      in \<lparr>graph = fold add_transfers sm gr1,
          station_map = sm,
          station_id_to_obj = populate_station_id_to_obj (db_stations db),
          line_table = db_lines db\<rparr>)"

text \<open>\<^verbatim>\<open>MetroGraph(db)\<close>: the constructor has no \<^verbatim>\<open>raise\<close> and calls nothing that raises,
  so it always returns.\<close>

definition MetroGraph :: "session \<Rightarrow> py_error + metro_graph" where
  "MetroGraph db = Inr (build_graph db)"

section \<open>MetroGraph.find_shortest_path\<close>

text \<open>
  An entry of the priority queue (line 124): stations count, station id, path ids, fare,
  time, line id, stations in the current segment. Python compares tuples component by
  component and lists lexicographically, which is the order of \<open>\<times>\<close> and \<open>list\<close> here, and
  \<^verbatim>\<open>heapq.heappop\<close> returns the least entry. Entries that compare equal are equal, so the
  queue is kept as the list of its entries and the heap layout is not modelled.
\<close>

type_synonym pq_entry = "int \<times> int \<times> int list \<times> real \<times> real \<times> int \<times> int"

fun min_entry :: "'a::linorder \<Rightarrow> 'a list \<Rightarrow> 'a" where
  "min_entry m [] = m"
| "min_entry m (x # xs) = min_entry (if x < m then x else m) xs"

text \<open>\<^verbatim>\<open>heapq.heappop\<close> on a queue that is not empty: the entry it returns, and the queue it
  leaves.\<close>

definition heappop :: "'a::linorder list \<Rightarrow> 'a" where
  "heappop q = min_entry (hd q) (tl q)"

definition heappop_rest :: "'a::linorder list \<Rightarrow> 'a list" where
  "heappop_rest q = remove1 (heappop q) q"

definition entry_id :: "pq_entry \<Rightarrow> int" where
  "entry_id m = fst (snd m)"

text \<open>A value of the dictionary \<^verbatim>\<open>path_info\<close> (lines 129-137 and 202-210).\<close>

record path_info_entry =
  pi_path_ids :: "int list"
  pi_fare :: real
  pi_time :: real
  pi_current_line_id :: int
  pi_stations_in_segment :: int
  pi_interchanges :: "string list"
  pi_line_changes :: "line_change_detail list"

text \<open>
  The state of one run of the \<^verbatim>\<open>while\<close> loop. \<^verbatim>\<open>distances\<close> holds \<^verbatim>\<open>float('inf')\<close> for every
  known id at the start and is read with \<^verbatim>\<open>distances.get(id, float('inf'))\<close>; it is
  never iterated, so it is a map in which \<open>None\<close> stands for infinity.
\<close>

record run_state =
  pq :: "pq_entry list"
  distances :: "int \<rightharpoonup> int"
  path_info :: "int \<rightharpoonup> path_info_entry"

text \<open>Lines 115-120: the best candidate so far, shared by the runs.
  \<open>min_total_stations = None\<close> is \<^verbatim>\<open>float('inf')\<close>.\<close>

record best_candidate =
  min_total_stations :: "int option"
  best_path_ids :: "int list"
  best_fare :: real
  best_time :: real
  best_interchanges :: "string list"
  best_line_changes :: "line_change_detail list"

text \<open>\<^verbatim>\<open>n < x\<close> where \<open>x\<close> is an integer or \<^verbatim>\<open>float('inf')\<close>.\<close>

definition lt_inf :: "int \<Rightarrow> int option \<Rightarrow> bool" where
  "lt_inf n x = (case x of None \<Rightarrow> True | Some d \<Rightarrow> n < d)"

text \<open>The ORM relationship \<^verbatim>\<open>station.line\<close>: the line row with the station's
  \<^verbatim>\<open>line_id\<close>, or Python's \<^verbatim>\<open>None\<close>.\<close>

definition station_line :: "metro_graph \<Rightarrow> station \<Rightarrow> line option" where
  "station_line g s = find (\<lambda>l. l_id l = s_line_id s) (line_table g)"

text \<open>
  The constructor of the pydantic model \<^verbatim>\<open>LineChangeDetail\<close> (schemas.py, lines 46-49),
  applied to keyword arguments. The field \<^verbatim>\<open>from_line\<close> is declared with
  \<^verbatim>\<open>alias="from"\<close> and the model sets no \<^verbatim>\<open>populate_by_name\<close>, so pydantic fills it from the
  key \<^verbatim>\<open>from\<close> only; \<^verbatim>\<open>to\<close> and \<^verbatim>\<open>at\<close> are filled from their own names; all three are
  required (\<^verbatim>\<open>Field(...)\<close>); a keyword that names no field is ignored; a missing required
  field raises \<^verbatim>\<open>ValidationError\<close>.
\<close>

definition LineChangeDetail :: "(string \<times> string) list \<Rightarrow> py_error + line_change_detail" where
  "LineChangeDetail kwargs =
     (case map_of kwargs ''from'' of
        None \<Rightarrow> Inl ValidationError
      | Some f \<Rightarrow>
         (case map_of kwargs ''to'' of
            None \<Rightarrow> Inl ValidationError
          | Some t \<Rightarrow>
             (case map_of kwargs ''at'' of
                None \<Rightarrow> Inl ValidationError
              | Some a \<Rightarrow> Inr \<lparr>from_line = f, to_line = t, at_station = a\<rparr>)))"

text \<open>
  Lines 166-195: the values \<^verbatim>\<open>new_fare\<close>, \<^verbatim>\<open>new_time\<close>, \<^verbatim>\<open>new_line_id\<close>,
  \<^verbatim>\<open>new_stations_in_segment_for_fare\<close>, \<^verbatim>\<open>new_interchanges\<close> and \<^verbatim>\<open>new_line_changes\<close>
  computed for the edge \<open>ew\<close> from station \<open>cur\<close> to station \<open>nb\<close>. The call at line
  179 passes the keywords \<^verbatim>\<open>_from\<close>, \<^verbatim>\<open>to\<close> and \<^verbatim>\<open>at\<close>; its arguments are evaluated first.
\<close>

type_synonym hop_values = "real \<times> real \<times> int \<times> int \<times> string list \<times> line_change_detail list"

definition edge_values ::
  "metro_graph \<Rightarrow> station \<Rightarrow> station \<Rightarrow> edge_weights \<Rightarrow> real \<Rightarrow> real \<Rightarrow> int \<Rightarrow>
   string list \<Rightarrow> line_change_detail list \<Rightarrow> py_error + hop_values" where
  "edge_values g cur nb ew current_fare current_time stations_in_segment ints lcs =
     (if e_line_change ew = Some True then
        (case e_to_line_id ew of
           None \<Rightarrow> Inl KeyError
         | Some new_line_id \<Rightarrow>
            (case station_line g cur of
               None \<Rightarrow> Inl AttributeError
             | Some l1 \<Rightarrow>
                (case station_line g nb of
                   None \<Rightarrow> Inl AttributeError
                 | Some l2 \<Rightarrow>
                    (case LineChangeDetail
                            [(''_from'', l_name l1), (''to'', l_name l2), (''at'', s_name cur)] of
                       Inl err \<Rightarrow> Inl err
                     | Inr lc \<Rightarrow>
                        Inr (current_fare + e_fare ew, current_time + e_time ew, new_line_id, 0,
                             (if s_name cur \<in> set ints then ints else ints @ [s_name cur]),
                             lcs @ [lc])))))
      else
        (case e_line_id ew of
           None \<Rightarrow> Inl KeyError
         | Some new_line_id \<Rightarrow>
            Inr ((if stations_in_segment + 1 \<le> 2 then current_fare + 0 else current_fare + 5.0),
                 current_time + e_time ew, new_line_id, stations_in_segment + 1, ints, lcs)))"

text \<open>Lines 162-211: the body of the loop over the neighbours, for one neighbour.\<close>

definition relax ::
  "metro_graph \<Rightarrow> pq_entry \<Rightarrow> station \<Rightarrow> int \<times> edge_weights \<Rightarrow> run_state \<Rightarrow> py_error + run_state" where
  "relax g m cur nbr rs =
     (case m of (current_stations_count, current_station_id, current_path_ids,
                 current_fare, current_time, current_line_id, stations_in_segment) \<Rightarrow>
      (case map_of (station_id_to_obj g) (fst nbr) of
         None \<Rightarrow> Inl KeyError
       | Some nb \<Rightarrow>
          (case path_info rs current_station_id of
             None \<Rightarrow> Inl KeyError
           | Some info \<Rightarrow>
              (case edge_values g cur nb (snd nbr) current_fare current_time stations_in_segment
                      (pi_interchanges info) (pi_line_changes info) of
                 Inl err \<Rightarrow> Inl err
               | Inr (new_fare, new_time, new_line_id, new_segment, new_ints, new_lcs) \<Rightarrow>
                  (let new_total = current_stations_count + e_stations (snd nbr) in
                   if lt_inf new_total (distances rs (fst nbr))
                   then Inr \<lparr>pq = pq rs @ [(new_total, fst nbr, current_path_ids @ [fst nbr],
                                            new_fare, new_time, new_line_id, new_segment)],
                             distances = (distances rs)(fst nbr \<mapsto> new_total),
                             path_info = (path_info rs)(fst nbr \<mapsto>
                               \<lparr>pi_path_ids = current_path_ids @ [fst nbr],
                                pi_fare = new_fare, pi_time = new_time,
                                pi_current_line_id = new_line_id,
                                pi_stations_in_segment = new_segment,
                                pi_interchanges = new_ints,
                                pi_line_changes = new_lcs\<rparr>)\<rparr>
                   else Inr rs)))))"

text \<open>Line 162: the loop over \<^verbatim>\<open>self.graph[current_station_id]\<close>; an exception ends it.\<close>

fun relax_all ::
  "metro_graph \<Rightarrow> pq_entry \<Rightarrow> station \<Rightarrow> (int \<times> edge_weights) list \<Rightarrow> run_state \<Rightarrow>
   py_error + run_state" where
  "relax_all g m cur [] rs = Inr rs"
| "relax_all g m cur (nbr # rest) rs =
     (case relax g m cur nbr rs of
        Inl err \<Rightarrow> Inl err
      | Inr rs' \<Rightarrow> relax_all g m cur rest rs')"

text \<open>Lines 153-159: a popped node with the destination's name is a candidate.\<close>

definition record_candidate ::
  "pq_entry \<Rightarrow> run_state \<Rightarrow> best_candidate \<Rightarrow> py_error + best_candidate" where
  "record_candidate m rs best =
     (case m of (current_stations_count, current_station_id, current_path_ids,
                 current_fare, current_time, current_line_id, stations_in_segment) \<Rightarrow>
      if lt_inf current_stations_count (min_total_stations best)
      then (case path_info rs current_station_id of
              None \<Rightarrow> Inl KeyError
            | Some info \<Rightarrow>
               Inr \<lparr>min_total_stations = Some current_stations_count,
                    best_path_ids = current_path_ids,
                    best_fare = current_fare,
                    best_time = current_time,
                    best_interchanges = pi_interchanges info,
                    best_line_changes = pi_line_changes info\<rparr>)
      else Inr best)"

lemma min_entry_mem: "min_entry m xs \<in> set (m # xs)"
proof (induction xs arbitrary: m)
  case Nil
  show ?case by simp
next
  case (Cons x xs)
  have "min_entry (if x < m then x else m) xs \<in> set ((if x < m then x else m) # xs)"
    by (rule Cons.IH)
  then show ?case by (auto split: if_splits)
qed

lemma heappop_mem: "q \<noteq> [] \<Longrightarrow> heappop q \<in> set q"
  using min_entry_mem [of "hd q" "tl q"] by (cases q) (simp_all add: heappop_def)

lemma length_heappop_rest: "q \<noteq> [] \<Longrightarrow> length (heappop_rest q) < length q"
  using heappop_mem [of q] by (simp add: heappop_rest_def length_remove1)

lemma set_heappop_rest: "set (heappop_rest q) \<subseteq> set q"
  by (simp add: heappop_rest_def set_remove1_subset)

lemma set_heappop_cases: "e \<in> set q \<Longrightarrow> e = heappop q \<or> e \<in> set (heappop_rest q)"
  by (cases "e = heappop q") (simp_all add: heappop_rest_def)

lemma unvisited_card_less:
  assumes "k \<notin> visited" and "map_of al k = Some v"
  shows "card (fst ` set al - insert k visited) < card (fst ` set al - visited)"
proof -
  have "k \<in> fst ` set al - visited"
    using assms by (auto dest: map_of_SomeD intro: rev_image_eqI)
  then show ?thesis
    by (intro psubset_card_mono) auto
qed

text \<open>
  Lines 141-211: the \<^verbatim>\<open>while pq\<close> loop of one run. \<open>visited\<close> is the set of line 139.
  An exception (\<open>Inl\<close>) leaves the loop and the function.
\<close>

function search_loop ::
  "metro_graph \<Rightarrow> string \<Rightarrow> int set \<Rightarrow> run_state \<Rightarrow> best_candidate \<Rightarrow> py_error + best_candidate" where
  "search_loop g end_station_name visited rs best =
     (if pq rs = [] then Inr best
      else if entry_id (heappop (pq rs)) \<in> visited
      then search_loop g end_station_name visited (rs\<lparr>pq := heappop_rest (pq rs)\<rparr>) best
      else
        (case map_of (station_id_to_obj g) (entry_id (heappop (pq rs))) of
           None \<Rightarrow> Inl KeyError
         | Some cur \<Rightarrow>
            (if s_name cur = end_station_name
             then (case record_candidate (heappop (pq rs))
                          (rs\<lparr>pq := heappop_rest (pq rs)\<rparr>) best of
                     Inl err \<Rightarrow> Inl err
                   | Inr best' \<Rightarrow>
                      search_loop g end_station_name
                        (insert (entry_id (heappop (pq rs))) visited)
                        (rs\<lparr>pq := heappop_rest (pq rs)\<rparr>) best')
             else (case relax_all g (heappop (pq rs)) cur
                          (dd_get (graph g) (entry_id (heappop (pq rs))))
                          (rs\<lparr>pq := heappop_rest (pq rs)\<rparr>) of
                     Inl err \<Rightarrow> Inl err
                   | Inr rs' \<Rightarrow>
                      search_loop g end_station_name
                        (insert (entry_id (heappop (pq rs))) visited) rs' best))))"
  by pat_completeness auto

termination
  apply (relation "(\<lambda>(g, e, visited, rs, best). card (fst ` set (station_id_to_obj g) - visited))
                   <*mlex*> measure (\<lambda>(g, e, visited, rs, best). length (pq rs))")
     apply (simp add: wf_mlex)
    apply (simp add: mlex_iff length_heappop_rest)
   apply (simp add: mlex_iff unvisited_card_less)
  apply (simp add: mlex_iff unvisited_card_less)
  done

declare search_loop.simps [simp del]

text \<open>Lines 124-139: the queue, the distances and the path information at the start of
  the run from \<open>start_node_obj\<close>.\<close>

definition initial_run_state :: "station \<Rightarrow> run_state" where
  "initial_run_state start_node_obj =
     \<lparr>pq = [(0, s_id start_node_obj, [s_id start_node_obj], 0.0, 0.0,
             s_line_id start_node_obj, 1)],
      distances = [s_id start_node_obj \<mapsto> 0],
      path_info = [s_id start_node_obj \<mapsto>
        \<lparr>pi_path_ids = [s_id start_node_obj], pi_fare = 0.0, pi_time = 0.0,
         pi_current_line_id = s_line_id start_node_obj,
         pi_stations_in_segment = 1,
         pi_interchanges = [], pi_line_changes = []\<rparr>]\<rparr>"

text \<open>Line 123: one run per start node, in the order of the name index.\<close>

fun search_from_all ::
  "metro_graph \<Rightarrow> string \<Rightarrow> station list \<Rightarrow> best_candidate \<Rightarrow> py_error + best_candidate" where
  "search_from_all g end_station_name [] best = Inr best"
| "search_from_all g end_station_name (start_node_obj # rest) best =
     (case search_loop g end_station_name {} (initial_run_state start_node_obj) best of
        Inl err \<Rightarrow> Inl err
      | Inr best' \<Rightarrow> search_from_all g end_station_name rest best')"

definition initial_best :: best_candidate where
  "initial_best =
     \<lparr>min_total_stations = None, best_path_ids = [], best_fare = 0.0, best_time = 0.0,
      best_interchanges = [], best_line_changes = []\<rparr>"

text \<open>Line 217: \<^verbatim>\<open>[self.station_id_to_obj[s_id].name for s_id in best_path_ids]\<close>.\<close>

fun route_names :: "(int \<times> station) list \<Rightarrow> int list \<Rightarrow> py_error + string list" where
  "route_names objs [] = Inr []"
| "route_names objs (i # is) =
     (case map_of objs i of
        None \<Rightarrow> Inl KeyError
      | Some st \<Rightarrow>
         (case route_names objs is of
            Inl err \<Rightarrow> Inl err
          | Inr ns \<Rightarrow> Inr (s_name st # ns)))"

text \<open>
  The decimal digits of a natural number, and Python's \<^verbatim>\<open>str\<close> of a float for the
  floats of this program: non-negative, below \<open>10^16\<close>, with at most one decimal digit
  (\<^verbatim>\<open>0.0\<close>, \<^verbatim>\<open>2.5\<close>, \<^verbatim>\<open>5.0\<close>, \<^verbatim>\<open>12.5\<close>).
\<close>

fun show_nat :: "nat \<Rightarrow> string" where
  "show_nat n =
     (if n < 10 then [''0123456789'' ! n]
      else show_nat (n div 10) @ [''0123456789'' ! (n mod 10)])"

definition float_str :: "real \<Rightarrow> string" where
  "float_str x =
     show_nat (nat \<lfloor>x\<rfloor>) @ ''.'' @ show_nat (nat \<lfloor>(x - of_int \<lfloor>x\<rfloor>) * 10\<rfloor>)"

text \<open>
  Lines 101-233. \<^verbatim>\<open>not start_nodes\<close> holds for \<^verbatim>\<open>None\<close> and for the empty list.
  \<^verbatim>\<open>list(set(best_interchanges))\<close> keeps one copy of each name, in an order Python
  does not fix; \<open>remdups\<close> is one such order. At line 228 \<^verbatim>\<open>min_total_stations\<close> is an
  integer whenever \<^verbatim>\<open>best_path_ids\<close> is not empty, since lines 154-155 assign both; the
  branch for infinity is the failure of the integer field \<^verbatim>\<open>totalStations\<close>.
\<close>

definition find_shortest_path ::
  "metro_graph \<Rightarrow> string \<Rightarrow> string \<Rightarrow> py_error + route_response option" where
  "find_shortest_path g start_station_name end_station_name =
     (case map_of (station_map g) start_station_name of
        None \<Rightarrow> Inr None
      | Some start_nodes \<Rightarrow>
         (case map_of (station_map g) end_station_name of
            None \<Rightarrow> Inr None
          | Some end_nodes \<Rightarrow>
             if start_nodes = [] \<or> end_nodes = [] then Inr None
             else
               (case search_from_all g end_station_name start_nodes initial_best of
                  Inl err \<Rightarrow> Inl err
                | Inr best \<Rightarrow>
                   if best_path_ids best = [] then Inr None
                   else
                     (case route_names (station_id_to_obj g) (best_path_ids best) of
                        Inl err \<Rightarrow> Inl err
                      | Inr names \<Rightarrow>
                         (case min_total_stations best of
                            None \<Rightarrow> Inl ValidationError
                          | Some n \<Rightarrow>
                             Inr (Some
                               \<lparr>route = names,
                                totalStations = n,
                                totalFare = (if n > 0 then best_fare best + 10.0
                                             else best_fare best),
                                interchanges = remdups (best_interchanges best),
                                estimatedTime = float_str (best_time best) @ '' minutes'',
                                lineChanges = best_line_changes best\<rparr>))))))"

section \<open>The endpoint find_metro_route\<close>

text \<open>
  Lines 367-405. \<open>mg\<close> is the global \<^verbatim>\<open>metro_graph\<close> (\<open>None\<close> before startup), \<open>db\<close> the
  session of the request. \<^verbatim>\<open>.first()\<close> is \<open>find\<close>. An exception that is not an
  \<^verbatim>\<open>HTTPException\<close> leaves the handler, and the framework answers 500.
\<close>

definition quoted :: "string \<Rightarrow> string" where
  "quoted x = [CHR 0x27] @ x @ [CHR 0x27]"

definition zero_route :: "string \<Rightarrow> route_response" where
  "zero_route x =
     \<lparr>route = [x], totalStations = 0, totalFare = 0.0, interchanges = [],
      estimatedTime = ''0 minutes'', lineChanges = []\<rparr>"

definition find_metro_route ::
  "metro_graph option \<Rightarrow> session \<Rightarrow> route_request \<Rightarrow> http_exception + route_response" where
  "find_metro_route mg db request =
     (case mg of
        None \<Rightarrow> Inl (HTTPException 503 ''Metro graph not initialized. Please try again later.'')
      | Some g \<Rightarrow>
         if source request = destination request then Inr (zero_route (source request))
         else if find (\<lambda>s. s_name s = source request) (db_stations db) = None
         then Inl (HTTPException 400
                (''Invalid source station name: '' @ quoted (source request) @ '' not found.''))
         else if find (\<lambda>s. s_name s = destination request) (db_stations db) = None
         then Inl (HTTPException 400
                (''Invalid destination station name: '' @ quoted (destination request)
                 @ '' not found.''))
         else
           (case find_shortest_path g (source request) (destination request) of
              Inl err \<Rightarrow> Inl (HTTPException 500 ''Internal Server Error'')
            | Inr None \<Rightarrow>
               Inl (HTTPException 404
                 (''No route found between '' @ quoted (source request) @ '' and ''
                  @ quoted (destination request) @ ''.''))
            | Inr (Some r) \<Rightarrow> Inr r))"

section \<open>Example networks\<close>

definition mk_station :: "int \<Rightarrow> string \<Rightarrow> int \<Rightarrow> int \<Rightarrow> bool \<Rightarrow> station" where
  "mk_station i n l k x =
     \<lparr>s_id = i, s_name = n, s_line_id = l, s_station_number_on_line = k, s_is_interchange = x\<rparr>"

definition red_line :: line where
  "red_line = \<lparr>l_id = 1, l_name = ''Red'', l_color = ''red''\<rparr>"

definition blue_line :: line where
  "blue_line = \<lparr>l_id = 2, l_name = ''Blue'', l_color = ''blue''\<rparr>"

text \<open>One line \<open>l\<close> with the stations A, B, C at sequence numbers 1, 2, 3, none an
  interchange; \<open>a\<close>, \<open>b\<close>, \<open>c\<close> are their ids.\<close>

definition three_station_line :: "int \<Rightarrow> int \<Rightarrow> int \<Rightarrow> line \<Rightarrow> session" where
  "three_station_line a b c l =
     \<lparr>db_stations =
        [mk_station a ''A'' (l_id l) 1 False, mk_station b ''B'' (l_id l) 2 False,
         mk_station c ''C'' (l_id l) 3 False],
      db_lines = [l]\<rparr>"

definition four_station_line :: session where
  "four_station_line =
     \<lparr>db_stations =
        [mk_station 1 ''A'' 1 1 False, mk_station 2 ''B'' 1 2 False,
         mk_station 3 ''C'' 1 3 False, mk_station 4 ''D'' 1 4 False],
      db_lines = [red_line]\<rparr>"

text \<open>A on the red line, the interchange X on both lines, D on the blue line.\<close>

definition interchange_db :: session where
  "interchange_db =
     \<lparr>db_stations =
        [mk_station 1 ''A'' 1 1 False, mk_station 2 ''X'' 1 2 True,
         mk_station 3 ''X'' 2 1 True, mk_station 4 ''D'' 2 2 False],
      db_lines = [red_line, blue_line]\<rparr>"

text \<open>One line whose first station carries the sequence number -1: the request body of
  \<^verbatim>\<open>add_station_to_line\<close> is an unconstrained \<^verbatim>\<open>int\<close> (schemas.py line 27), and the column
  has no check (models.py line 27).\<close>

definition negative_sequence_db :: session where
  "negative_sequence_db =
     \<lparr>db_stations = [mk_station 1 ''A'' 1 (-1) False, mk_station 2 ''B'' 1 1 False],
      db_lines = [red_line]\<rparr>"

text \<open>The interchange X on three lines, every record flagged.\<close>

definition three_line_interchange_db :: session where
  "three_line_interchange_db =
     \<lparr>db_stations =
        [mk_station 1 ''X'' 1 1 True, mk_station 2 ''X'' 2 1 True, mk_station 3 ''X'' 3 1 True],
      db_lines = [red_line, blue_line, \<lparr>l_id = 3, l_name = ''Green'', l_color = ''green''\<rparr>]\<rparr>"

text \<open>The malformed input of the specification (its section 7): a station whose line is
  unknown, a negative sequence number, or a sequence number used twice on one line.\<close>

definition spec_malformed :: "session \<Rightarrow> bool" where
  "spec_malformed db =
     (list_ex (\<lambda>s. s_line_id s \<notin> l_id ` set (db_lines db)) (db_stations db)
      \<or> list_ex (\<lambda>s. s_station_number_on_line s < 0) (db_stations db)
      \<or> \<not> distinct (map (\<lambda>s. (s_line_id s, s_station_number_on_line s)) (db_stations db)))"

text \<open>A run state and a best candidate in which the next relaxation and the next
  candidate tie with what is recorded.\<close>

definition tie_state :: run_state where
  "tie_state =
     \<lparr>pq = [],
      distances = [1 \<mapsto> 0, 2 \<mapsto> 1, 3 \<mapsto> 2],
      path_info = [2 \<mapsto> \<lparr>pi_path_ids = [1, 2], pi_fare = 0.0, pi_time = 2.5,
                          pi_current_line_id = 1, pi_stations_in_segment = 2,
                          pi_interchanges = [], pi_line_changes = []\<rparr>]\<rparr>"

definition tie_best :: best_candidate where
  "tie_best =
     \<lparr>min_total_stations = Some 2, best_path_ids = [7, 8, 9], best_fare = 5.0, best_time = 5.0,
      best_interchanges = [], best_line_changes = []\<rparr>"

text \<open>X on the red line is flagged as an interchange, X on the blue line is not.\<close>

definition half_flagged_db :: session where
  "half_flagged_db =
     \<lparr>db_stations =
        [mk_station 1 ''A'' 1 1 False, mk_station 2 ''X'' 1 2 True,
         mk_station 3 ''X'' 2 1 False, mk_station 4 ''D'' 2 2 False],
      db_lines = [red_line, blue_line]\<rparr>"

section \<open>The edges of a graph\<close>

text \<open>The edges of an adjacency dictionary, as the list of the triples (from, to, weights)
  in the order of its keys, and as the set of the triples that \<^verbatim>\<open>self.graph[u]\<close> holds.\<close>

definition all_edges :: "adjacency \<Rightarrow> (int \<times> int \<times> edge_weights) list" where
  "all_edges gr = concat (map (\<lambda>(u, es). map (\<lambda>(v, e). (u, v, e)) es) gr)"

definition edge_set :: "adjacency \<Rightarrow> (int \<times> int \<times> edge_weights) set" where
  "edge_set gr = {(u, v, e). (v, e) \<in> set (dd_get gr u)}"

text \<open>The two directed transfer edges between two stations, and the transfer edges between
  the members of a name group that are on different lines.\<close>

definition transfer_pair :: "station \<Rightarrow> station \<Rightarrow> (int \<times> int \<times> edge_weights) set" where
  "transfer_pair a b =
     {(s_id a, s_id b, transfer_edge a b), (s_id b, s_id a, transfer_edge b a)}"

definition group_transfers :: "station list \<Rightarrow> (int \<times> int \<times> edge_weights) set" where
  "group_transfers grp =
     {(s_id a, s_id b, transfer_edge a b) | a b.
        a \<in> set grp \<and> b \<in> set grp \<and> s_line_id a \<noteq> s_line_id b}"

text \<open>The ride edges of line \<open>l\<close> in a graph: an edge with the key \<^verbatim>\<open>line_id\<close> equal to the
  line's id (a transfer edge has no such key).\<close>

definition line_ride_edges :: "adjacency \<Rightarrow> line \<Rightarrow> (int \<times> int \<times> edge_weights) list" where
  "line_ride_edges gr l = filter (\<lambda>(u, v, e). e_line_id e = Some (l_id l)) (all_edges gr)"

text \<open>The ride edges between the neighbours of the list \<open>S\<close>: for each index \<open>i\<close>, the edge
  from \<open>S ! i\<close> to \<open>S ! (i + 1)\<close> and the edge back.\<close>

definition adjacent_ride_edges :: "line \<Rightarrow> station list \<Rightarrow> (int \<times> int \<times> edge_weights) list" where
  "adjacent_ride_edges l S =
     concat (map (\<lambda>i. [(s_id (S ! i), s_id (S ! Suc i), ride_edge (S ! i) l),
                        (s_id (S ! Suc i), s_id (S ! i), ride_edge (S ! Suc i) l)])
               [0..<length S - 1])"

text \<open>The transfer edges of a graph: the edges that carry \<^verbatim>\<open>line_change: True\<close>.\<close>

definition transfer_edges :: "adjacency \<Rightarrow> (int \<times> int \<times> edge_weights) list" where
  "transfer_edges gr = filter (\<lambda>(u, v, e). e_line_change e = Some True) (all_edges gr)"

text \<open>What lines 82-99 add for one pair \<open>s1\<close>, \<open>s2\<close> of a name group: nothing when both are
  on one line, else one edge in each direction.\<close>

definition pair_transfer_edges :: "station \<Rightarrow> station \<Rightarrow> (int \<times> int \<times> edge_weights) list" where
  "pair_transfer_edges a b =
     (if s_line_id a \<noteq> s_line_id b
      then [(s_id a, s_id b, transfer_edge a b), (s_id b, s_id a, transfer_edge b a)]
      else [])"

text \<open>The nested loop of lines 76-79 over a name group: every pair of positions
  \<open>i < j\<close> once.\<close>

definition group_transfer_edges :: "station list \<Rightarrow> (int \<times> int \<times> edge_weights) list" where
  "group_transfer_edges grp =
     concat (map (\<lambda>i. concat (map (\<lambda>j. pair_transfer_edges (grp ! i) (grp ! j))
                                [Suc i..<length grp]))
               [0..<length grp])"

text \<open>The stations of one name, in the order of the records.\<close>

definition name_group :: "station list \<Rightarrow> string \<Rightarrow> station list" where
  "name_group sts n = filter (\<lambda>s. s_name s = n) sts"

text \<open>The transfer edges of all names: those of the groups with more than one member,
  all flagged (line 74), and none for the other names.\<close>

definition expected_transfer_edges :: "station list \<Rightarrow> (int \<times> int \<times> edge_weights) list" where
  "expected_transfer_edges sts =
     concat (map (\<lambda>n. if 1 < length (name_group sts n) \<and> list_all s_is_interchange (name_group sts n)
                       then group_transfer_edges (name_group sts n) else [])
               (remdups (map s_name sts)))"

text \<open>The ride edges of all lines: for every line, the edges between neighbours of its
  sorted station list.\<close>

definition all_ride_edges :: "session \<Rightarrow> (int \<times> int \<times> edge_weights) list" where
  "all_ride_edges db =
     concat (map (\<lambda>l. adjacent_ride_edges l (sorted_stations (db_stations db) l)) (db_lines db))"

text \<open>What one item of \<^verbatim>\<open>station_map\<close> contributes in the loop of line 73.\<close>

definition item_transfer_edges :: "string \<times> station list \<Rightarrow> (int \<times> int \<times> edge_weights) list" where
  "item_transfer_edges item =
     (if 1 < length (snd item) \<and> list_all s_is_interchange (snd item)
      then group_transfer_edges (snd item) else [])"

section \<open>Invariants of the search\<close>

text \<open>The components of a queue entry, and the entry and the path record that a
  relaxation stores (lines 202-211), from the values of the edge.\<close>

definition entry_count :: "pq_entry \<Rightarrow> int" where
  "entry_count m = fst m"

definition entry_path :: "pq_entry \<Rightarrow> int list" where
  "entry_path m = fst (snd (snd m))"

definition entry_fare :: "pq_entry \<Rightarrow> real" where
  "entry_fare m = fst (snd (snd (snd m)))"

definition entry_time :: "pq_entry \<Rightarrow> real" where
  "entry_time m = fst (snd (snd (snd (snd m))))"

definition entry_segment :: "pq_entry \<Rightarrow> int" where
  "entry_segment m = snd (snd (snd (snd (snd (snd m)))))"

definition pushed_entry :: "pq_entry \<Rightarrow> int \<times> edge_weights \<Rightarrow> hop_values \<Rightarrow> pq_entry" where
  "pushed_entry m nbr v =
     (entry_count m + e_stations (snd nbr), fst nbr, entry_path m @ [fst nbr],
      fst v, fst (snd v), fst (snd (snd v)), fst (snd (snd (snd v))))"

definition pushed_info :: "pq_entry \<Rightarrow> int \<times> edge_weights \<Rightarrow> hop_values \<Rightarrow> path_info_entry" where
  "pushed_info m nbr v =
     \<lparr>pi_path_ids = entry_path m @ [fst nbr], pi_fare = fst v, pi_time = fst (snd v),
      pi_current_line_id = fst (snd (snd v)),
      pi_stations_in_segment = fst (snd (snd (snd v))),
      pi_interchanges = fst (snd (snd (snd (snd v)))),
      pi_line_changes = snd (snd (snd (snd (snd v))))\<rparr>"

text \<open>
  What holds of every queue entry and of the best candidate while no transfer edge has
  been crossed: the count is the number of ride hops, the segment counter is one more
  (it starts at 1), the fare is 5.0 for every hop after the first, and the path has one
  id more than hops.
\<close>

definition entry_ok :: "pq_entry \<Rightarrow> bool" where
  "entry_ok m =
     (0 \<le> entry_count m \<and> entry_segment m = entry_count m + 1
      \<and> entry_fare m = 5 * of_int (max 0 (entry_count m - 1))
      \<and> length (entry_path m) = nat (entry_count m) + 1)"

definition best_ok :: "best_candidate \<Rightarrow> bool" where
  "best_ok b =
     (case min_total_stations b of
        None \<Rightarrow> True
      | Some n \<Rightarrow> 0 \<le> n \<and> best_fare b = 5 * of_int (max 0 (n - 1))
                  \<and> length (best_path_ids b) = nat n + 1)"

text \<open>An edge as the builder makes it: flagged as a line change, or counting one station.\<close>

definition edge_ok :: "edge_weights \<Rightarrow> bool" where
  "edge_ok ew = (e_line_change ew = Some True \<or> e_stations ew = 1)"

definition edges_ok :: "metro_graph \<Rightarrow> bool" where
  "edges_ok g = (\<forall>u. \<forall>nbr \<in> set (dd_get (graph g) u). edge_ok (snd nbr))"

definition fare_inv :: "int set \<Rightarrow> run_state \<Rightarrow> best_candidate \<Rightarrow> bool" where
  "fare_inv visited rs best = ((\<forall>x \<in> set (pq rs). entry_ok x) \<and> best_ok best)"

section \<open>Paths of the graph\<close>

text \<open>
  The edges of the graph as a relation on node ids, the nodes that carry a station name,
  and what the specification calls a connecting path: a path of edges from a node of the
  name index entry of \<open>a\<close> to a node named \<open>b\<close>.
\<close>

definition edge_rel :: "metro_graph \<Rightarrow> (int \<times> int) set" where
  "edge_rel g = {(u, v). \<exists>ew. (v, ew) \<in> set (dd_get (graph g) u)}"

definition node_named :: "metro_graph \<Rightarrow> int \<Rightarrow> string \<Rightarrow> bool" where
  "node_named g d n = (\<exists>st. map_of (station_id_to_obj g) d = Some st \<and> s_name st = n)"

definition connects :: "metro_graph \<Rightarrow> string \<Rightarrow> string \<Rightarrow> bool" where
  "connects g a b =
     (\<exists>s \<in> set (dd_get (station_map g) a). \<exists>d. (s_id s, d) \<in> (edge_rel g)\<^sup>* \<and> node_named g d b)"

text \<open>
  What a relaxation does to the run state: recorded distances stay recorded, queue
  entries stay, a newly recorded distance has a queue entry, and a new entry has a path.
\<close>

definition extends :: "run_state \<Rightarrow> run_state \<Rightarrow> bool" where
  "extends rs rs' =
     ((\<forall>v. distances rs v \<noteq> None \<longrightarrow> distances rs' v \<noteq> None)
      \<and> set (pq rs) \<subseteq> set (pq rs')
      \<and> (\<forall>v. distances rs' v \<noteq> None \<longrightarrow>
             distances rs v \<noteq> None \<or> v \<in> entry_id ` set (pq rs'))
      \<and> (\<forall>x \<in> set (pq rs'). x \<in> set (pq rs) \<or> entry_path x \<noteq> []))"

text \<open>
  The invariant of a run from node \<open>start\<close>: a node with a recorded distance is visited or
  queued; every neighbour of a visited node that is not named \<open>e\<close> has a recorded
  distance; once a node named \<open>e\<close> is visited the best path is not empty.
\<close>

definition comp_inv ::
  "metro_graph \<Rightarrow> string \<Rightarrow> int \<Rightarrow> int set \<Rightarrow> run_state \<Rightarrow> best_candidate \<Rightarrow> bool" where
  "comp_inv g e start visited rs best =
     ((\<forall>v. distances rs v \<noteq> None \<longrightarrow> v \<in> visited \<or> v \<in> entry_id ` set (pq rs))
      \<and> (\<forall>u \<in> visited. \<not> node_named g u e \<longrightarrow>
            (\<forall>v. (u, v) \<in> edge_rel g \<longrightarrow> distances rs v \<noteq> None))
      \<and> (\<forall>u \<in> visited. node_named g u e \<longrightarrow> best_path_ids best \<noteq> [])
      \<and> (\<forall>x \<in> set (pq rs). entry_path x \<noteq> [])
      \<and> (min_total_stations best \<noteq> None \<longrightarrow> best_path_ids best \<noteq> [])
      \<and> distances rs start \<noteq> None)"

section \<open>The same station as source and destination\<close>

lemma show_nat_nonempty: "show_nat n \<noteq> []"
  by (subst show_nat.simps) simp

lemma float_str_length: "3 \<le> length (float_str x)"
proof -
  have "1 \<le> length (show_nat n)" for n
    using show_nat_nonempty [of n] by (cases "show_nat n") simp_all
  from this [of "nat \<lfloor>x\<rfloor>"] this [of "nat \<lfloor>(x - of_int \<lfloor>x\<rfloor>) * 10\<rfloor>"]
  show ?thesis by (simp add: float_str_def)
qed

lemma search_time_string: 
  assumes "find_shortest_path g a b = Inr (Some r)"
  shows "11 \<le> length (estimatedTime r)"
proof -
  from assms obtain t where "estimatedTime r = float_str t @ '' minutes''"
    by (auto simp: find_shortest_path_def split: option.splits if_splits sum.splits)
  then show ?thesis using float_str_length [of t] by simp
qed

text \<open>
  C7: for a station name \<open>x\<close> of the name index, the query from \<open>x\<close> to \<open>x\<close> returns the
  zero-length route (route \<open>[x]\<close>, 0 stations, fare 0.0, time "0 minutes", no interchange,
  no line change). The search is not what answers: whatever it returns for \<open>x\<close> and \<open>x\<close>,
  it is not this record (its time string is a float, as in "0.0 minutes").
\<close>

theorem same_station_zero_route:
  assumes "x \<in> fst ` set (station_map g)"
  shows "find_metro_route (Some g) db \<lparr>source = x, destination = x\<rparr> =
           Inr \<lparr>route = [x], totalStations = 0, totalFare = 0.0, interchanges = [],
                estimatedTime = ''0 minutes'', lineChanges = []\<rparr>
         \<and> find_shortest_path g x x \<noteq>
           Inr (Some \<lparr>route = [x], totalStations = 0, totalFare = 0.0, interchanges = [],
                      estimatedTime = ''0 minutes'', lineChanges = []\<rparr>)"
proof
  show "find_metro_route (Some g) db \<lparr>source = x, destination = x\<rparr> =
           Inr \<lparr>route = [x], totalStations = 0, totalFare = 0.0, interchanges = [],
                estimatedTime = ''0 minutes'', lineChanges = []\<rparr>"
    by (simp add: find_metro_route_def zero_route_def)
  show "find_shortest_path g x x \<noteq>
           Inr (Some \<lparr>route = [x], totalStations = 0, totalFare = 0.0, interchanges = [],
                      estimatedTime = ''0 minutes'', lineChanges = []\<rparr>)"
    using search_time_string [of g x x] by fastforce
qed

theorem same_station_zero_route_witness:
  "''A'' \<in> fst ` set (station_map (build_graph (three_station_line 1 2 3 red_line)))
   \<and> find_metro_route (Some (build_graph (three_station_line 1 2 3 red_line)))
        (three_station_line 1 2 3 red_line) \<lparr>source = ''A'', destination = ''A''\<rparr> =
      Inr \<lparr>route = [''A''], totalStations = 0, totalFare = 0.0, interchanges = [],
           estimatedTime = ''0 minutes'', lineChanges = []\<rparr>
   \<and> find_shortest_path (build_graph (three_station_line 1 2 3 red_line)) ''A'' ''A'' =
      Inr (Some \<lparr>route = [''A''], totalStations = 0, totalFare = 0.0, interchanges = [],
                 estimatedTime = ''0.0 minutes'', lineChanges = []\<rparr>)"
proof -
  have h: "''A'' \<in> fst ` set (station_map (build_graph (three_station_line 1 2 3 red_line)))"
    by code_simp
  have s: "find_shortest_path (build_graph (three_station_line 1 2 3 red_line)) ''A'' ''A'' =
      Inr (Some \<lparr>route = [''A''], totalStations = 0, totalFare = 0.0, interchanges = [],
                 estimatedTime = ''0.0 minutes'', lineChanges = []\<rparr>)"
    by code_simp
  from same_station_zero_route [OF h, of "three_station_line 1 2 3 red_line"] h s
  show ?thesis by simp
qed

text \<open>
  C10: the comparison of source and destination comes before the validation of the
  names: for every string \<open>x\<close>, whatever the records and the graph hold, the query from
  \<open>x\<close> to \<open>x\<close> returns the zero-length route; a name without a record is reported (status
  400, naming it) only when the destination differs.
\<close>

theorem same_name_before_validation:
  "find_metro_route (Some g) db \<lparr>source = x, destination = x\<rparr> =
     Inr \<lparr>route = [x], totalStations = 0, totalFare = 0.0, interchanges = [],
          estimatedTime = ''0 minutes'', lineChanges = []\<rparr>
   \<and> (find (\<lambda>s. s_name s = x) (db_stations db) = None \<and> y \<noteq> x \<longrightarrow>
        find_metro_route (Some g) db \<lparr>source = x, destination = y\<rparr> =
          Inl (HTTPException 400
                (''Invalid source station name: '' @ quoted x @ '' not found.'')))"
  by (auto simp: find_metro_route_def zero_route_def)

theorem same_name_before_validation_witness:
  "find (\<lambda>s. s_name s = ''Nowhere'') (db_stations (three_station_line 1 2 3 red_line)) = None
   \<and> ''A'' \<noteq> ''Nowhere''
   \<and> find_metro_route (Some (build_graph (three_station_line 1 2 3 red_line)))
        (three_station_line 1 2 3 red_line) \<lparr>source = ''Nowhere'', destination = ''Nowhere''\<rparr> =
      Inr \<lparr>route = [''Nowhere''], totalStations = 0, totalFare = 0.0, interchanges = [],
           estimatedTime = ''0 minutes'', lineChanges = []\<rparr>
   \<and> find_metro_route (Some (build_graph (three_station_line 1 2 3 red_line)))
        (three_station_line 1 2 3 red_line) \<lparr>source = ''Nowhere'', destination = ''A''\<rparr> =
      Inl (HTTPException 400
            (''Invalid source station name: '' @ quoted ''Nowhere'' @ '' not found.''))"
proof -
  have h: "find (\<lambda>s. s_name s = ''Nowhere'') (db_stations (three_station_line 1 2 3 red_line))
             = None"
    by (simp add: three_station_line_def mk_station_def)
  from same_name_before_validation
         [of "build_graph (three_station_line 1 2 3 red_line)"
             "three_station_line 1 2 3 red_line" "''Nowhere''" "''A''"] h
  show ?thesis by simp
qed

section \<open>The three-station example\<close>

lemma three_station_route:
  assumes "a \<noteq> b" "a \<noteq> c" "b \<noteq> c"
  shows "find_shortest_path (build_graph (three_station_line a b c l)) ''A'' ''C'' = Inr (Some
       \<lparr>route = [''A'', ''B'', ''C''], totalStations = 2, totalFare = 15.0,
          interchanges = [], estimatedTime = ''5.0 minutes'',
          lineChanges = []\<rparr>)"
  using assms
  apply (simp add: three_station_line_def mk_station_def build_graph_def populate_station_map_def populate_station_id_to_obj_def
      dd_append_def dd_get_def add_line_def sorted_stations_def add_transfers_def ride_edge_def
      find_shortest_path_def initial_best_def initial_run_state_def)
  apply (simp add: search_loop.simps heappop_def heappop_rest_def entry_id_def relax_def edge_values_def lt_inf_def record_candidate_def dd_get_def float_str_def)
  done

text \<open>
  C2, as the code computes it: on one line with the stations A, B, C at sequence numbers
  1, 2, 3, none an interchange, the query from A to C returns the route A, B, C, 2
  stations, the fare 15.0 (the base fare 10.0 and 5.0 for the third station of the
  segment), the time "5.0 minutes", no interchange and no line change, from the search
  and from the endpoint.
\<close>

theorem three_station_example_fare_15:
  assumes "distinct [a, b, c]"
  shows "find_shortest_path (build_graph (three_station_line a b c l)) ''A'' ''C'' =
           Inr (Some \<lparr>route = [''A'', ''B'', ''C''], totalStations = 2, totalFare = 15.0,
                      interchanges = [], estimatedTime = ''5.0 minutes'', lineChanges = []\<rparr>)
         \<and> find_metro_route (Some (build_graph (three_station_line a b c l)))
             (three_station_line a b c l) \<lparr>source = ''A'', destination = ''C''\<rparr> =
           Inr \<lparr>route = [''A'', ''B'', ''C''], totalStations = 2, totalFare = 15.0,
                interchanges = [], estimatedTime = ''5.0 minutes'', lineChanges = []\<rparr>"
proof -
  from assms have d: "a \<noteq> b" "a \<noteq> c" "b \<noteq> c" by simp_all
  note r = three_station_route [OF d, of l]
  have "find_metro_route (Some (build_graph (three_station_line a b c l)))
             (three_station_line a b c l) \<lparr>source = ''A'', destination = ''C''\<rparr> =
           Inr \<lparr>route = [''A'', ''B'', ''C''], totalStations = 2, totalFare = 15.0,
                interchanges = [], estimatedTime = ''5.0 minutes'', lineChanges = []\<rparr>"
    unfolding find_metro_route_def using r
    by (simp add: three_station_line_def mk_station_def)
  with r show ?thesis by simp
qed

theorem three_station_example_fare_15_witness:
  "distinct [1, 2, 3 :: int]
   \<and> find_shortest_path (build_graph (three_station_line 1 2 3 red_line)) ''A'' ''C'' =
           Inr (Some \<lparr>route = [''A'', ''B'', ''C''], totalStations = 2, totalFare = 15.0,
                      interchanges = [], estimatedTime = ''5.0 minutes'', lineChanges = []\<rparr>)"
proof -
  have h: "distinct [1, 2, 3 :: int]" by simp
  from three_station_example_fare_15 [OF h, of red_line] h show ?thesis by simp
qed

text \<open>C2 as stated, with the fare 10.0, fails on the example.\<close>

theorem three_station_example_fare_not_10:
  "find_shortest_path (build_graph (three_station_line 1 2 3 red_line)) ''A'' ''C'' \<noteq>
     Inr (Some \<lparr>route = [''A'', ''B'', ''C''], totalStations = 2, totalFare = 10.0,
                interchanges = [], estimatedTime = ''5.0 minutes'', lineChanges = []\<rparr>)"
  by code_simp

section \<open>Relaxation across a transfer edge\<close>

text \<open>
  C4: a relaxation across a transfer edge of the builder never yields the new values:
  the constructor call of line 179 passes the keyword \<^verbatim>\<open>_from\<close> and raises (or a lookup
  before it does). In the network with the interchange X, the relaxation from X on the
  red line to X on the blue line raises \<^verbatim>\<open>ValidationError\<close>, no line-change record is
  appended, the search from A to D raises and the endpoint answers 500.
\<close>

theorem transfer_relaxation_raises:
  "isl (edge_values g cur nb (transfer_edge s1 s2) current_fare current_time
          stations_in_segment ints lcs)
   \<and> edge_values (build_graph interchange_db) (mk_station 2 ''X'' 1 2 True)
       (mk_station 3 ''X'' 2 1 True)
       (transfer_edge (mk_station 2 ''X'' 1 2 True) (mk_station 3 ''X'' 2 1 True))
       0.0 2.5 2 [] [] = Inl ValidationError
   \<and> find_shortest_path (build_graph interchange_db) ''A'' ''D'' = Inl ValidationError
   \<and> find_metro_route (Some (build_graph interchange_db)) interchange_db
        \<lparr>source = ''A'', destination = ''D''\<rparr> = Inl (HTTPException 500 ''Internal Server Error'')"
proof -
  have "isl (edge_values g cur nb (transfer_edge s1 s2) current_fare current_time
          stations_in_segment ints lcs)"
    by (simp add: edge_values_def transfer_edge_def LineChangeDetail_def split: option.splits)
  moreover have
    "edge_values (build_graph interchange_db) (mk_station 2 ''X'' 1 2 True)
       (mk_station 3 ''X'' 2 1 True)
       (transfer_edge (mk_station 2 ''X'' 1 2 True) (mk_station 3 ''X'' 2 1 True))
       0.0 2.5 2 [] [] = Inl ValidationError"
    by code_simp
  moreover have
    "find_shortest_path (build_graph interchange_db) ''A'' ''D'' = Inl ValidationError"
    by code_simp
  moreover have
    "find_metro_route (Some (build_graph interchange_db)) interchange_db
        \<lparr>source = ''A'', destination = ''D''\<rparr> = Inl (HTTPException 500 ''Internal Server Error'')"
    by code_simp
  ultimately show ?thesis by simp
qed

section \<open>Strict improvement\<close>

lemma relax_changes_iff:
  assumes "relax g m cur nbr rs = Inr rs'"
  shows "rs' \<noteq> rs \<longleftrightarrow> lt_inf (fst m + e_stations (snd nbr)) (distances rs (fst nbr))"
proof (cases "lt_inf (fst m + e_stations (snd nbr)) (distances rs (fst nbr))")
  case True
  with assms have "length (pq rs') = Suc (length (pq rs))"
    by (auto simp: relax_def Let_def split: prod.splits option.splits sum.splits)
  then have "rs' \<noteq> rs" by auto
  with True show ?thesis by simp
next
  case False
  with assms have "rs' = rs"
    by (auto simp: relax_def Let_def split: prod.splits option.splits sum.splits)
  with False show ?thesis by simp
qed

lemma record_candidate_changes_iff:
  assumes "record_candidate m rs best = Inr best'"
  shows "best' \<noteq> best \<longleftrightarrow> lt_inf (fst m) (min_total_stations best)"
proof (cases "lt_inf (fst m) (min_total_stations best)")
  case True
  with assms have "min_total_stations best' = Some (fst m)"
    by (auto simp: record_candidate_def split: prod.splits option.splits)
  with True have "min_total_stations best' \<noteq> min_total_stations best"
    by (auto simp: lt_inf_def split: option.splits)
  then have "best' \<noteq> best" by auto
  with True show ?thesis by simp
next
  case False
  with assms have "best' = best"
    by (auto simp: record_candidate_def split: prod.splits option.splits)
  with False show ?thesis by simp
qed

lemma record_candidate_improves:
  assumes "record_candidate m rs best = Inr best'"
  shows "best' = best \<or> (\<exists>n. min_total_stations best' = Some n \<and> lt_inf n (min_total_stations best))"
  using assms by (auto simp: record_candidate_def split: prod.splits option.splits if_splits)

lemma lt_inf_trans: "lt_inf n (Some c) \<Longrightarrow> lt_inf c x \<Longrightarrow> lt_inf n x"
  by (auto simp: lt_inf_def split: option.splits)

lemma search_loop_improves:
  "search_loop g e visited rs best = Inr best' \<Longrightarrow>
   best' = best \<or> (\<exists>n. min_total_stations best' = Some n \<and> lt_inf n (min_total_stations best))"
proof (induction g e visited rs best rule: search_loop.induct)
  case (1 g e visited rs best)
  note eq = "1.prems"
  show ?case
  proof (cases "pq rs = []")
    case True
    with eq show ?thesis by (simp add: search_loop.simps [of g e visited rs best])
  next
    case ne: False
    show ?thesis
    proof (cases "entry_id (heappop (pq rs)) \<in> visited")
      case True
      with ne eq have "search_loop g e visited (rs\<lparr>pq := heappop_rest (pq rs)\<rparr>) best = Inr best'"
        by (simp add: search_loop.simps [of g e visited rs best])
      with "1.IH"(1) [OF ne True] show ?thesis .
    next
      case nv: False
      from ne nv eq obtain cur where
        cur: "map_of (station_id_to_obj g) (entry_id (heappop (pq rs))) = Some cur"
        by (auto simp: search_loop.simps [of g e visited rs best] split: option.splits)
      show ?thesis
      proof (cases "s_name cur = e")
        case True
        with ne nv cur eq obtain b1 where
          b1: "record_candidate (heappop (pq rs)) (rs\<lparr>pq := heappop_rest (pq rs)\<rparr>) best = Inr b1"
          and rec: "search_loop g e (insert (entry_id (heappop (pq rs))) visited)
                      (rs\<lparr>pq := heappop_rest (pq rs)\<rparr>) b1 = Inr best'"
          by (auto simp: search_loop.simps [of g e visited rs best] split: sum.splits)
        from "1.IH"(2) [OF ne nv cur True b1 rec]
        have "best' = b1 \<or> (\<exists>n. min_total_stations best' = Some n \<and> lt_inf n (min_total_stations b1))" .
        with record_candidate_improves [OF b1] show ?thesis
          by (auto intro: lt_inf_trans)
      next
        case False
        with ne nv cur eq obtain rs1 where
          r1: "relax_all g (heappop (pq rs)) cur (dd_get (graph g) (entry_id (heappop (pq rs))))
                 (rs\<lparr>pq := heappop_rest (pq rs)\<rparr>) = Inr rs1"
          and rec: "search_loop g e (insert (entry_id (heappop (pq rs))) visited) rs1 best = Inr best'"
          by (auto simp: search_loop.simps [of g e visited rs best] split: sum.splits)
        from "1.IH"(3) [OF ne nv cur False r1 rec] show ?thesis .
      qed
    qed
  qed
qed

lemma search_from_all_improves:
  "search_from_all g e starts best = Inr best' \<Longrightarrow>
   best' = best \<or> (\<exists>n. min_total_stations best' = Some n \<and> lt_inf n (min_total_stations best))"
proof (induction starts arbitrary: best)
  case Nil
  then show ?case by simp
next
  case (Cons s starts)
  from Cons.prems obtain b1 where
    b1: "search_loop g e {} (initial_run_state s) best = Inr b1"
    and rest: "search_from_all g e starts b1 = Inr best'"
    by (auto split: sum.splits)
  from Cons.IH [OF rest] search_loop_improves [OF b1] show ?case
    by (auto intro: lt_inf_trans)
qed

text \<open>
  C9: a relaxation changes the run state (the neighbour's distance, its path record and
  the queue) exactly when the new stations count is strictly smaller than the recorded
  one; a destination candidate replaces the best one exactly when its count is strictly
  smaller; and after the runs from all start nodes the best candidate is the one before
  them or one with a strictly smaller count.
\<close>

theorem strictly_smaller_replaces:
  "(relax g m cur nbr rs = Inr rs' \<and> distances rs (fst nbr) = Some d
      \<longrightarrow> (rs' \<noteq> rs \<longleftrightarrow> fst m + e_stations (snd nbr) < d))
   \<and> (record_candidate m rs best = Inr best' \<and> min_total_stations best = Some c
      \<longrightarrow> (best' \<noteq> best \<longleftrightarrow> fst m < c))
   \<and> (search_from_all g e starts best = Inr best'' \<and> min_total_stations best = Some c
      \<longrightarrow> best'' = best \<or> (\<exists>n. n < c \<and> min_total_stations best'' = Some n))"
proof (intro conjI impI)
  assume "relax g m cur nbr rs = Inr rs' \<and> distances rs (fst nbr) = Some d"
  then show "rs' \<noteq> rs \<longleftrightarrow> fst m + e_stations (snd nbr) < d"
    using relax_changes_iff [of g m cur nbr rs rs'] by (simp add: lt_inf_def)
next
  assume "record_candidate m rs best = Inr best' \<and> min_total_stations best = Some c"
  then show "best' \<noteq> best \<longleftrightarrow> fst m < c"
    using record_candidate_changes_iff [of m rs best best'] by (simp add: lt_inf_def)
next
  assume "search_from_all g e starts best = Inr best'' \<and> min_total_stations best = Some c"
  then show "best'' = best \<or> (\<exists>n. n < c \<and> min_total_stations best'' = Some n)"
    using search_from_all_improves [of g e starts best best''] by (auto simp: lt_inf_def)
qed

theorem strictly_smaller_replaces_witness:
  "relax (build_graph (three_station_line 1 2 3 red_line)) (1, 2, [1, 2], 0.0, 2.5, 1, 2)
      (mk_station 2 ''B'' 1 2 False) (3, ride_edge (mk_station 2 ''B'' 1 2 False) red_line)
      tie_state = Inr tie_state
   \<and> distances tie_state 3 = Some 2
   \<and> record_candidate (2, 3, [1, 2, 3], 5.0, 5.0, 1, 3) tie_state tie_best = Inr tie_best
   \<and> min_total_stations tie_best = Some 2
   \<and> search_from_all (build_graph (three_station_line 1 2 3 red_line)) ''C''
        [mk_station 1 ''A'' 1 1 False] tie_best = Inr tie_best"
proof -
  let ?g = "build_graph (three_station_line 1 2 3 red_line)"
  let ?B = "mk_station 2 ''B'' 1 2 False"
  have a: "relax ?g (1, 2, [1, 2], 0.0, 2.5, 1, 2) ?B (3, ride_edge ?B red_line) tie_state
             = Inr tie_state"
    by (simp add: relax_def build_graph_def three_station_line_def populate_station_id_to_obj_def
        mk_station_def tie_state_def edge_values_def ride_edge_def lt_inf_def Let_def)
  have b: "distances tie_state 3 = Some 2" by (simp add: tie_state_def)
  have c: "record_candidate (2, 3, [1, 2, 3], 5.0, 5.0, 1, 3) tie_state tie_best = Inr tie_best"
    by code_simp
  have d: "min_total_stations tie_best = Some 2" by (simp add: tie_best_def)
  have e: "search_from_all ?g ''C'' [mk_station 1 ''A'' 1 1 False] tie_best = Inr tie_best"
    by code_simp
  from strictly_smaller_replaces [of "?g" "(1, 2, [1, 2], 0.0, 2.5, 1, 2)" "?B"
      "(3, ride_edge ?B red_line)" tie_state tie_state 2 tie_best tie_best 2 "''C''"
      "[mk_station 1 ''A'' 1 1 False]" tie_best] a b c d e
  show ?thesis by simp
qed

section \<open>What the builder puts into the graph\<close>

lemma dd_append_Nil: "dd_append [] k x = [(k, [x])]"
  by (simp add: dd_append_def dd_get_def)

lemma dd_append_Cons:
  "dd_append ((k', es) # d) k x =
     (if k' = k then (k, es @ [x]) # d else (k', es) # dd_append d k x)"
  by (simp add: dd_append_def dd_get_def)

lemma dd_get_dd_append:
  "dd_get (dd_append d k x) w = (if w = k then dd_get d k @ [x] else dd_get d w)"
  by (simp add: dd_append_def dd_get_def update_conv')

lemma mset_all_edges_dd_append:
  "mset (all_edges (dd_append gr u x)) = add_mset (u, fst x, snd x) (mset (all_edges gr))"
proof (induction gr)
  case Nil
  show ?case by (simp add: dd_append_Nil all_edges_def split: prod.splits)
next
  case (Cons p gr)
  obtain k es where p: "p = (k, es)" by (cases p)
  show ?case
  proof (cases "k = u")
    case True
    then show ?thesis by (simp add: p dd_append_Cons all_edges_def split: prod.splits)
  next
    case False
    have "all_edges ((k, es) # dd_append gr u x) = map (\<lambda>(v, e). (k, v, e)) es @ all_edges (dd_append gr u x)"
      by (simp add: all_edges_def)
    moreover have "all_edges ((k, es) # gr) = map (\<lambda>(v, e). (k, v, e)) es @ all_edges gr"
      by (simp add: all_edges_def)
    ultimately show ?thesis using False Cons.IH by (simp add: p dd_append_Cons)
  qed
qed

lemma set_all_edges: "(u, v, e) \<in> set (all_edges gr) \<Longrightarrow> \<exists>es. (u, es) \<in> set gr \<and> (v, e) \<in> set es"
  by (auto simp: all_edges_def)

lemma edge_set_dd_append: "edge_set (dd_append gr u (v, e)) = insert (u, v, e) (edge_set gr)"
  by (auto simp: edge_set_def dd_get_dd_append split: if_splits)

lemma edge_set_connect_one:
  "edge_set (connect_one s1 rest gr) =
     edge_set gr \<union> (\<Union>s2 \<in> {s \<in> set rest. s_line_id s1 \<noteq> s_line_id s}. transfer_pair s1 s2)"
  by (induction rest arbitrary: gr) (auto simp: edge_set_dd_append transfer_pair_def)

lemma edge_set_connect_all:
  "edge_set (connect_all grp gr) = edge_set gr \<union> group_transfers grp"
proof (induction grp arbitrary: gr)
  case Nil
  show ?case by (simp add: group_transfers_def)
next
  case (Cons s1 rest)
  have "group_transfers (s1 # rest) =
          (\<Union>s2 \<in> {s \<in> set rest. s_line_id s1 \<noteq> s_line_id s}. transfer_pair s1 s2)
          \<union> group_transfers rest"
    unfolding group_transfers_def transfer_pair_def by (auto; metis)
  then show ?case by (simp add: Cons.IH edge_set_connect_one Un_assoc)
qed

lemma edge_set_add_transfers:
  "edge_set (add_transfers item gr) =
     edge_set gr \<union> (if length (snd item) > 1 \<and> list_all s_is_interchange (snd item)
                     then group_transfers (snd item) else {})"
  by (simp add: add_transfers_def edge_set_connect_all)

lemma edge_set_fold_add_transfers:
  "edge_set (fold add_transfers sm gr) =
     edge_set gr \<union> (\<Union>item \<in> {i \<in> set sm. length (snd i) > 1 \<and> list_all s_is_interchange (snd i)}.
                      group_transfers (snd item))"
  by (induction sm arbitrary: gr) (auto simp: edge_set_add_transfers)

lemma map_of_dd_append: "map_of (dd_append d k x) = (map_of d)(k \<mapsto> dd_get d k @ [x])"
  by (simp add: dd_append_def update_conv')

lemma map_of_fold_station_map:
  "map_of (fold (\<lambda>s m. dd_append m (s_name s) s) sts m) n =
     (if filter (\<lambda>s. s_name s = n) sts = [] then map_of m n
      else Some (dd_get m n @ filter (\<lambda>s. s_name s = n) sts))"
proof (induction sts arbitrary: m)
  case Nil
  show ?case by simp
next
  case (Cons s sts)
  show ?case
    by (simp add: Cons.IH map_of_dd_append dd_get_dd_append)
qed

lemma distinct_dd_append: "distinct (map fst d) \<Longrightarrow> distinct (map fst (dd_append d k x))"
  by (simp add: dd_append_def distinct_update)

lemma distinct_fold_station_map:
  "distinct (map fst m) \<Longrightarrow> distinct (map fst (fold (\<lambda>s m. dd_append m (s_name s) s) sts m))"
  by (induction sts arbitrary: m) (simp_all add: distinct_dd_append)

lemma station_map_items:
  "(n, grp) \<in> set (populate_station_map sts) \<longleftrightarrow>
     grp = filter (\<lambda>s. s_name s = n) sts \<and> grp \<noteq> []"
proof -
  have "distinct (map fst (populate_station_map sts))"
    by (simp add: populate_station_map_def distinct_fold_station_map)
  then have "(n, grp) \<in> set (populate_station_map sts) \<longleftrightarrow>
               map_of (populate_station_map sts) n = Some grp"
    by simp
  also have "\<dots> \<longleftrightarrow> grp = filter (\<lambda>s. s_name s = n) sts \<and> grp \<noteq> []"
    by (auto simp: populate_station_map_def map_of_fold_station_map dd_get_def)
  finally show ?thesis .
qed

lemma edge_set_add_ride_edges:
  "edge_set (add_ride_edges l S gr) \<subseteq> edge_set gr \<union> {(u, v, e). e_line_change e = None}"
  by (induction l S gr rule: add_ride_edges.induct)
     (auto simp: edge_set_dd_append ride_edge_def)

lemma edge_set_fold_add_line:
  "edge_set (fold (add_line sts) ls gr) \<subseteq> edge_set gr \<union> {(u, v, e). e_line_change e = None}"
proof (induction ls arbitrary: gr)
  case Nil
  show ?case by simp
next
  case (Cons l ls)
  from Cons.IH [of "add_line sts l gr"] edge_set_add_ride_edges [of l "sorted_stations sts l" gr]
  show ?case by (auto simp: add_line_def)
qed

lemma two_members_length:
  assumes "a \<in> set xs" "b \<in> set xs" "a \<noteq> b"
  shows "1 < length xs"
proof (cases xs)
  case Nil
  with assms show ?thesis by simp
next
  case (Cons x ys)
  with assms show ?thesis by (cases ys) auto
qed

lemma edge_set_empty: "edge_set [] = {}"
  by (simp add: edge_set_def dd_get_def)

lemma transfer_edges_of_graph:
  "(u, v, e) \<in> edge_set (graph (build_graph db)) \<and> e_line_change e = Some True \<longleftrightarrow>
     (\<exists>a \<in> set (db_stations db). \<exists>b \<in> set (db_stations db).
        s_id a = u \<and> s_id b = v \<and> s_name b = s_name a \<and> s_line_id a \<noteq> s_line_id b
        \<and> list_all s_is_interchange (filter (\<lambda>s. s_name s = s_name a) (db_stations db))
        \<and> e = transfer_edge a b)"
  (is "?L \<longleftrightarrow> ?R")
proof
  let ?sts = "db_stations db"
  let ?gr1 = "fold (add_line ?sts) (db_lines db) []"
  have g: "edge_set (graph (build_graph db)) =
             edge_set ?gr1 \<union> (\<Union>item \<in> {i \<in> set (populate_station_map ?sts).
                 length (snd i) > 1 \<and> list_all s_is_interchange (snd i)}. group_transfers (snd item))"
    by (simp add: build_graph_def Let_def edge_set_fold_add_transfers)
  have r: "edge_set ?gr1 \<subseteq> {(u, v, e). e_line_change e = None}"
    using edge_set_fold_add_line [of ?sts "db_lines db" "[]"] by (simp add: edge_set_empty)
  {
    assume ?L
    with g r obtain n grp where item: "(n, grp) \<in> set (populate_station_map ?sts)"
      and all: "list_all s_is_interchange grp" and t: "(u, v, e) \<in> group_transfers grp"
      by fastforce
    from item have grp: "grp = filter (\<lambda>s. s_name s = n) ?sts"
      by (simp add: station_map_items)
    from t obtain a b where ab: "a \<in> set grp" "b \<in> set grp" "s_line_id a \<noteq> s_line_id b"
      "u = s_id a" "v = s_id b" "e = transfer_edge a b"
      by (auto simp: group_transfers_def)
    from ab grp have "s_name a = n" "s_name b = n" "a \<in> set ?sts" "b \<in> set ?sts" by auto
    with ab all grp show ?R by auto
  }
  {
    assume ?R
    then obtain a b where ab: "a \<in> set ?sts" "b \<in> set ?sts" "s_id a = u" "s_id b = v"
      "s_name b = s_name a" "s_line_id a \<noteq> s_line_id b"
      "list_all s_is_interchange (filter (\<lambda>s. s_name s = s_name a) ?sts)"
      "e = transfer_edge a b"
      by auto
    let ?grp = "filter (\<lambda>s. s_name s = s_name a) ?sts"
    from ab have mem: "a \<in> set ?grp" "b \<in> set ?grp" by auto
    then have "?grp \<noteq> []" by (auto simp: filter_empty_conv)
    then have item: "(s_name a, ?grp) \<in> set (populate_station_map ?sts)"
      by (simp add: station_map_items)
    from ab have "a \<noteq> b" by auto
    with mem have "length ?grp > 1"
      by (rule two_members_length)
    moreover from mem ab have "(u, v, e) \<in> group_transfers ?grp"
      by (auto simp: group_transfers_def)
    ultimately have "(u, v, e) \<in> edge_set (graph (build_graph db))"
      using item ab(7) unfolding g by force
    with ab show ?L by (simp add: transfer_edge_def)
  }
qed

lemma adjacent_ride_edges_Cons2:
  "adjacent_ride_edges l (s1 # s2 # rest) =
     (s_id s1, s_id s2, ride_edge s1 l) # (s_id s2, s_id s1, ride_edge s2 l)
       # adjacent_ride_edges l (s2 # rest)"
proof -
  have "[0..<Suc (length rest)] = 0 # map Suc [0..<length rest]"
    by (simp add: upt_conv_Cons map_Suc_upt del: upt_Suc)
  then show ?thesis
    by (simp add: adjacent_ride_edges_def comp_def del: upt_Suc)
qed

lemma adjacent_ride_edges_short [simp]:
  "adjacent_ride_edges l [] = []" "adjacent_ride_edges l [s] = []"
  by (simp_all add: adjacent_ride_edges_def)

lemma mset_all_edges_add_ride_edges:
  "mset (all_edges (add_ride_edges l S gr)) =
     mset (all_edges gr) + mset (adjacent_ride_edges l S)"
  by (induction l S gr rule: add_ride_edges.induct)
     (simp_all add: mset_all_edges_dd_append adjacent_ride_edges_Cons2)

lemma mset_all_edges_fold_add_line:
  "mset (all_edges (fold (add_line sts) ls gr)) =
     mset (all_edges gr)
     + mset (concat (map (\<lambda>l. adjacent_ride_edges l (sorted_stations sts l)) ls))"
  by (induction ls arbitrary: gr) (simp_all add: add_line_def mset_all_edges_add_ride_edges)

lemma line_ride_edges_dd_append_transfer:
  "mset (line_ride_edges (dd_append gr u (v, transfer_edge a b)) l) = mset (line_ride_edges gr l)"
  by (simp add: line_ride_edges_def mset_filter mset_all_edges_dd_append transfer_edge_def)

lemma line_ride_edges_connect_one:
  "mset (line_ride_edges (connect_one s1 rest gr) l) = mset (line_ride_edges gr l)"
  by (induction rest arbitrary: gr) (simp_all add: line_ride_edges_dd_append_transfer)

lemma line_ride_edges_connect_all:
  "mset (line_ride_edges (connect_all grp gr) l) = mset (line_ride_edges gr l)"
  by (induction grp arbitrary: gr) (simp_all add: line_ride_edges_connect_one)

lemma line_ride_edges_fold_add_transfers:
  "mset (line_ride_edges (fold add_transfers sm gr) l) = mset (line_ride_edges gr l)"
  by (induction sm arbitrary: gr) (simp_all add: add_transfers_def line_ride_edges_connect_all)

lemma filter_adjacent_same:
  "filter (\<lambda>(u, v, e). e_line_id e = Some x) (adjacent_ride_edges l S) =
     (if l_id l = x then adjacent_ride_edges l S else [])"
proof -
  have "\<forall>t \<in> set (adjacent_ride_edges l S). e_line_id (snd (snd t)) = Some (l_id l)"
    by (auto simp: adjacent_ride_edges_def ride_edge_def)
  then show ?thesis
    by (auto simp: filter_empty_conv filter_id_conv split: prod.splits)
qed

lemma filter_lines_concat:
  assumes "distinct (map l_id ls)" "l \<in> set ls"
  shows "mset (filter (\<lambda>(u, v, e). e_line_id e = Some (l_id l))
                 (concat (map (\<lambda>l'. adjacent_ride_edges l' (sorted_stations sts l')) ls)))
         = mset (adjacent_ride_edges l (sorted_stations sts l))"
  using assms
proof (induction ls)
  case Nil
  then show ?case by simp
next
  case (Cons l' ls)
  show ?case
  proof (cases "l' = l")
    case True
    with Cons.prems have "l_id l \<notin> l_id ` set ls" by simp
    then have "\<forall>k \<in> set ls. l_id k \<noteq> l_id l" by (metis imageI)
    then have "filter (\<lambda>(u, v, e). e_line_id e = Some (l_id l))
                 (concat (map (\<lambda>l'. adjacent_ride_edges l' (sorted_stations sts l')) ls)) = []"
      by (induction ls) (simp_all add: filter_adjacent_same)
    with True show ?thesis by (simp add: filter_adjacent_same)
  next
    case False
    with Cons.prems have "l \<in> set ls" "distinct (map l_id ls)" "l_id l' \<noteq> l_id l" by auto
    with Cons.IH show ?thesis by (simp add: filter_adjacent_same)
  qed
qed

lemma all_edges_Nil [simp]: "all_edges [] = []"
  by (simp add: all_edges_def)

lemma line_ride_edges_build_graph:
  assumes "l \<in> set (db_lines db)" "distinct (map l_id (db_lines db))"
  shows "mset (line_ride_edges (graph (build_graph db)) l) =
           mset (adjacent_ride_edges l (sorted_stations (db_stations db) l))"
proof -
  have "mset (line_ride_edges (graph (build_graph db)) l) =
          mset (line_ride_edges (fold (add_line (db_stations db)) (db_lines db) []) l)"
    by (simp add: build_graph_def Let_def line_ride_edges_fold_add_transfers)
  also have "\<dots> = mset (filter (\<lambda>(u, v, e). e_line_id e = Some (l_id l))
       (concat (map (\<lambda>l'. adjacent_ride_edges l' (sorted_stations (db_stations db) l')) (db_lines db))))"
    unfolding line_ride_edges_def mset_filter
    by (simp add: mset_all_edges_fold_add_line)
  also have "\<dots> = mset (adjacent_ride_edges l (sorted_stations (db_stations db) l))"
    by (rule filter_lines_concat [OF assms(2) assms(1)])
  finally show ?thesis .
qed

lemma length_adjacent_ride_edges: "length (adjacent_ride_edges l S) = 2 * (length S - 1)"
  by (simp add: adjacent_ride_edges_def length_concat comp_def sum_list_triv)

lemma map_key_sort_key: "map f (sort_key f xs) = sort (map f xs)"
  by (rule properties_for_sort [symmetric]) simp_all

lemma distinct_map_eq: "distinct (map f xs) \<Longrightarrow> a \<in> set xs \<Longrightarrow> b \<in> set xs \<Longrightarrow> f a = f b \<Longrightarrow> a = b"
  by (meson distinct_map inj_onD)

text \<open>
  In terms of adjacency lists: \<^verbatim>\<open>graph[u]\<close> holds a transfer edge to \<open>v\<close> exactly when two
  stations with these ids have the same name and different lines and every station of
  that name is flagged as an interchange (the name group then has more than one member).
  With distinct station ids, a station whose name group has a member that is not flagged
  has no transfer edge.
\<close>

lemma transfer_edge_membership:
  "((v, e) \<in> set (dd_get (graph (build_graph db)) u) \<and> e_line_change e = Some True \<longleftrightarrow>
      (\<exists>a \<in> set (db_stations db). \<exists>b \<in> set (db_stations db).
         s_id a = u \<and> s_id b = v \<and> s_name b = s_name a \<and> s_line_id a \<noteq> s_line_id b
         \<and> 1 < length (filter (\<lambda>s. s_name s = s_name a) (db_stations db))
         \<and> list_all s_is_interchange (filter (\<lambda>s. s_name s = s_name a) (db_stations db))
         \<and> e = \<lparr>e_stations = 0, e_time = 5.0, e_fare = 2.0, e_line_id = None,
                 e_line_change = Some True, e_from_line_id = Some (s_line_id a),
                 e_to_line_id = Some (s_line_id b)\<rparr>))
   \<and> (distinct (map s_id (db_stations db)) \<and> c \<in> set (db_stations db)
        \<and> \<not> list_all s_is_interchange (filter (\<lambda>s. s_name s = s_name c) (db_stations db))
       \<longrightarrow> filter (\<lambda>(v, e). e_line_change e = Some True)
             (dd_get (graph (build_graph db)) (s_id c)) = [])"
proof (intro conjI impI)
  let ?sts = "db_stations db"
  have iff: "(v, e) \<in> set (dd_get (graph (build_graph db)) u) \<and> e_line_change e = Some True \<longleftrightarrow>
     (\<exists>a \<in> set ?sts. \<exists>b \<in> set ?sts.
        s_id a = u \<and> s_id b = v \<and> s_name b = s_name a \<and> s_line_id a \<noteq> s_line_id b
        \<and> list_all s_is_interchange (filter (\<lambda>s. s_name s = s_name a) ?sts)
        \<and> e = transfer_edge a b)" for u v e
    using transfer_edges_of_graph [of u v e db] by (simp add: edge_set_def)
  have len: "1 < length (filter (\<lambda>s. s_name s = s_name a) ?sts)"
    if "a \<in> set ?sts" "b \<in> set ?sts" "s_name b = s_name a" "s_line_id a \<noteq> s_line_id b" for a b
  proof (rule two_members_length [of a _ b])
    show "a \<in> set (filter (\<lambda>s. s_name s = s_name a) ?sts)" using that by simp
    show "b \<in> set (filter (\<lambda>s. s_name s = s_name a) ?sts)" using that by simp
    show "a \<noteq> b" using that by auto
  qed
  show "(v, e) \<in> set (dd_get (graph (build_graph db)) u) \<and> e_line_change e = Some True \<longleftrightarrow>
      (\<exists>a \<in> set ?sts. \<exists>b \<in> set ?sts.
         s_id a = u \<and> s_id b = v \<and> s_name b = s_name a \<and> s_line_id a \<noteq> s_line_id b
         \<and> 1 < length (filter (\<lambda>s. s_name s = s_name a) ?sts)
         \<and> list_all s_is_interchange (filter (\<lambda>s. s_name s = s_name a) ?sts)
         \<and> e = \<lparr>e_stations = 0, e_time = 5.0, e_fare = 2.0, e_line_id = None,
                 e_line_change = Some True, e_from_line_id = Some (s_line_id a),
                 e_to_line_id = Some (s_line_id b)\<rparr>)"
    unfolding iff transfer_edge_def using len by blast
next
  assume h: "distinct (map s_id (db_stations db)) \<and> c \<in> set (db_stations db)
        \<and> \<not> list_all s_is_interchange (filter (\<lambda>s. s_name s = s_name c) (db_stations db))"
  have "\<not> (p \<in> set (dd_get (graph (build_graph db)) (s_id c)) \<and> e_line_change (snd p) = Some True)" for p
  proof
    assume "p \<in> set (dd_get (graph (build_graph db)) (s_id c)) \<and> e_line_change (snd p) = Some True"
    then have "(s_id c, fst p, snd p) \<in> edge_set (graph (build_graph db)) \<and> e_line_change (snd p) = Some True"
      by (simp add: edge_set_def)
    then obtain a where a: "a \<in> set (db_stations db)" "s_id a = s_id c"
      "list_all s_is_interchange (filter (\<lambda>s. s_name s = s_name a) (db_stations db))"
      unfolding transfer_edges_of_graph by blast
    from h a(1,2) have "a = c" by (meson distinct_map_eq)
    with a(3) h show False by simp
  qed
  then show "filter (\<lambda>(v, e). e_line_change e = Some True)
             (dd_get (graph (build_graph db)) (s_id c)) = []"
    by (auto simp: filter_empty_conv)
qed

text \<open>The edges of the built graph as a multiset: the loop over a name group adds
  \<open>group_transfer_edges\<close>, the loop over the items of \<^verbatim>\<open>station_map\<close> adds
  \<open>expected_transfer_edges\<close>, and the loop over the lines adds \<open>all_ride_edges\<close>.\<close>

lemma group_transfer_edges_Nil [simp]: "group_transfer_edges [] = []"
  by (simp add: group_transfer_edges_def)

lemma group_transfer_edges_Cons:
  "group_transfer_edges (x # rest) =
     concat (map (pair_transfer_edges x) rest) @ group_transfer_edges rest"
proof -
  have outer: "[0..<Suc (length rest)] = 0 # map Suc [0..<length rest]"
    by (simp add: upt_conv_Cons map_Suc_upt del: upt_Suc)
  have inner: "[Suc (Suc i)..<Suc (length rest)] = map Suc [Suc i..<length rest]" for i
    by (simp add: map_Suc_upt del: upt_Suc)
  have first: "map (\<lambda>j. pair_transfer_edges x ((x # rest) ! j)) [Suc 0..<Suc (length rest)]
                 = map (pair_transfer_edges x) rest"
  proof -
    have "[Suc 0..<Suc (length rest)] = map Suc [0..<length rest]"
      by (simp add: map_Suc_upt del: upt_Suc)
    then have "map (\<lambda>j. pair_transfer_edges x ((x # rest) ! j)) [Suc 0..<Suc (length rest)]
                 = map (\<lambda>j. pair_transfer_edges x (rest ! j)) [0..<length rest]"
      by (simp add: comp_def del: upt_Suc)
    also have "\<dots> = map (pair_transfer_edges x) (map (\<lambda>j. rest ! j) [0..<length rest])"
      by (simp add: comp_def)
    also have "\<dots> = map (pair_transfer_edges x) rest"
      by (simp add: map_nth)
    finally show ?thesis .
  qed
  show ?thesis
    unfolding group_transfer_edges_def
    by (simp add: outer inner first comp_def del: upt_Suc)
qed

lemma mset_all_edges_connect_one:
  "mset (all_edges (connect_one s1 rest gr)) =
     mset (all_edges gr) + mset (concat (map (pair_transfer_edges s1) rest))"
  by (induction rest arbitrary: gr)
     (simp_all add: mset_all_edges_dd_append pair_transfer_edges_def)

lemma mset_all_edges_connect_all:
  "mset (all_edges (connect_all grp gr)) = mset (all_edges gr) + mset (group_transfer_edges grp)"
  by (induction grp arbitrary: gr)
     (simp_all add: mset_all_edges_connect_one group_transfer_edges_Cons)

lemma mset_all_edges_fold_add_transfers:
  "mset (all_edges (fold add_transfers sm gr)) =
     mset (all_edges gr) + mset (concat (map item_transfer_edges sm))"
  by (induction sm arbitrary: gr)
     (simp_all add: add_transfers_def item_transfer_edges_def mset_all_edges_connect_all)

lemma mset_concat_map_cong:
  assumes "mset xs = mset ys"
  shows "mset (concat (map f xs)) = mset (concat (map f ys))"
proof -
  have "mset (concat (map f zs)) = (\<Sum>z\<in>#mset zs. mset (f z))" for zs
    by (induction zs) simp_all
  with assms show ?thesis by simp
qed

lemma mset_station_map:
  "mset (populate_station_map sts) =
     mset (map (\<lambda>n. (n, name_group sts n)) (remdups (map s_name sts)))"
proof -
  have d1: "distinct (populate_station_map sts)"
  proof -
    have "distinct (map fst (populate_station_map sts))"
      by (simp add: populate_station_map_def distinct_fold_station_map)
    then show ?thesis by (simp add: distinct_map)
  qed
  have d2: "distinct (map (\<lambda>n. (n, name_group sts n)) (remdups (map s_name sts)))"
    by (simp add: distinct_map inj_on_def)
  have s: "set (populate_station_map sts) =
          set (map (\<lambda>n. (n, name_group sts n)) (remdups (map s_name sts)))"
  proof (rule set_eqI)
    fix p :: "string \<times> station list"
    obtain n grp where p: "p = (n, grp)" by (cases p)
    have "filter (\<lambda>s. s_name s = n) sts \<noteq> [] \<longleftrightarrow> n \<in> s_name ` set sts"
      by (auto simp: filter_empty_conv)
    then show "p \<in> set (populate_station_map sts) \<longleftrightarrow>
           p \<in> set (map (\<lambda>n. (n, name_group sts n)) (remdups (map s_name sts)))"
      unfolding p station_map_items by (auto simp: name_group_def)
  qed
  show ?thesis
    by (rule iffD1 [OF set_eq_iff_mset_eq_distinct [OF d1 d2] s])
qed

lemma mset_all_edges_build_graph:
  "mset (all_edges (graph (build_graph db))) =
     mset (all_ride_edges db) + mset (expected_transfer_edges (db_stations db))"
proof -
  let ?sts = "db_stations db"
  have "mset (concat (map item_transfer_edges (populate_station_map ?sts))) =
          mset (concat (map item_transfer_edges
                  (map (\<lambda>n. (n, name_group ?sts n)) (remdups (map s_name ?sts)))))"
    by (rule mset_concat_map_cong) (rule mset_station_map)
  also have "\<dots> = mset (expected_transfer_edges ?sts)"
    by (simp add: expected_transfer_edges_def item_transfer_edges_def comp_def cong: if_cong)
  finally have t: "mset (concat (map item_transfer_edges (populate_station_map ?sts))) =
                     mset (expected_transfer_edges ?sts)" .
  show ?thesis
    by (simp add: build_graph_def Let_def mset_all_edges_fold_add_transfers
        mset_all_edges_fold_add_line all_ride_edges_def t)
qed

lemma group_transfer_edges_line_change:
  "t \<in> set (group_transfer_edges grp) \<Longrightarrow> e_line_change (snd (snd t)) = Some True"
  by (induction grp)
     (auto simp: group_transfer_edges_Cons pair_transfer_edges_def transfer_edge_def
        split: if_splits)

lemma filter_expected_transfer_edges:
  "filter (\<lambda>(u, v, e). e_line_change e = Some True) (expected_transfer_edges sts) =
     expected_transfer_edges sts"
proof -
  have "\<forall>t \<in> set (expected_transfer_edges sts). e_line_change (snd (snd t)) = Some True"
    by (auto simp: expected_transfer_edges_def dest: group_transfer_edges_line_change
        split: if_splits)
  then show ?thesis by (auto simp: filter_id_conv split: prod.splits)
qed

lemma filter_all_ride_edges:
  "filter (\<lambda>(u, v, e). e_line_change e = Some True) (all_ride_edges db) = []"
  by (auto simp: all_ride_edges_def adjacent_ride_edges_def ride_edge_def filter_empty_conv)

lemma mset_transfer_edges_build_graph:
  "mset (transfer_edges (graph (build_graph db))) = mset (expected_transfer_edges (db_stations db))"
proof -
  have "mset (transfer_edges (graph (build_graph db))) =
          mset (filter (\<lambda>(u, v, e). e_line_change e = Some True) (all_ride_edges db))
          + mset (filter (\<lambda>(u, v, e). e_line_change e = Some True)
                    (expected_transfer_edges (db_stations db)))"
    unfolding transfer_edges_def mset_filter mset_all_edges_build_graph by simp
  then show ?thesis
    by (simp only: filter_all_ride_edges filter_expected_transfer_edges) simp
qed

lemma pair_edges_ids:
  assumes "(u, v, e) \<in> set (concat (map (pair_transfer_edges x) rest))"
  shows "(u = s_id x \<and> v \<in> s_id ` set rest) \<or> (v = s_id x \<and> u \<in> s_id ` set rest)"
  using assms by (auto simp: pair_transfer_edges_def split: if_splits)

lemma group_edges_ids:
  assumes "(u, v, e) \<in> set (group_transfer_edges grp)"
  shows "u \<in> s_id ` set grp \<and> v \<in> s_id ` set grp"
  using assms
proof (induction grp)
  case Nil
  then show ?case by simp
next
  case (Cons x rest)
  from Cons.prems have "(u, v, e) \<in> set (concat (map (pair_transfer_edges x) rest))
      \<or> (u, v, e) \<in> set (group_transfer_edges rest)"
    by (simp add: group_transfer_edges_Cons)
  then show ?case
  proof
    assume "(u, v, e) \<in> set (concat (map (pair_transfer_edges x) rest))"
    from pair_edges_ids [OF this] show ?thesis by auto
  next
    assume "(u, v, e) \<in> set (group_transfer_edges rest)"
    from Cons.IH [OF this] show ?thesis by auto
  qed
qed

lemma count_pair_edges_zero:
  assumes "u \<noteq> s_id x \<or> v \<notin> s_id ` set rest" and "v \<noteq> s_id x \<or> u \<notin> s_id ` set rest"
  shows "count (mset (concat (map (pair_transfer_edges x) rest))) (u, v, e) = 0"
proof -
  have "(u, v, e) \<notin> set (concat (map (pair_transfer_edges x) rest))"
    using pair_edges_ids [of u v e x rest] assms by blast
  then show ?thesis by (simp add: count_eq_zero_iff)
qed

lemma count_group_edges_zero:
  assumes "u \<notin> s_id ` set grp \<or> v \<notin> s_id ` set grp"
  shows "count (mset (group_transfer_edges grp)) (u, v, e) = 0"
proof -
  have "(u, v, e) \<notin> set (group_transfer_edges grp)"
    using group_edges_ids [of u v e grp] assms by blast
  then show ?thesis by (simp add: count_eq_zero_iff)
qed

lemma count_pair_edges_forward:
  assumes "distinct (map s_id (x # rest))" and "b \<in> set rest" and "s_line_id x \<noteq> s_line_id b"
  shows "count (mset (concat (map (pair_transfer_edges x) rest)))
           (s_id x, s_id b, transfer_edge x b) = 1"
  using assms
proof (induction rest)
  case Nil
  then show ?case by simp
next
  case (Cons y ys)
  from Cons.prems(1) have xy: "s_id x \<noteq> s_id y" and xys: "s_id x \<notin> s_id ` set ys"
    and yys: "s_id y \<notin> s_id ` set ys" and d: "distinct (map s_id (x # ys))"
    by auto
  show ?case
  proof (cases "y = b")
    case True
    have "count (mset (concat (map (pair_transfer_edges x) ys)))
            (s_id x, s_id b, transfer_edge x b) = 0"
      using yys True by (intro count_pair_edges_zero) auto
    moreover have "count (mset (pair_transfer_edges x b)) (s_id x, s_id b, transfer_edge x b) = 1"
      using Cons.prems(3) xy True by (simp add: pair_transfer_edges_def)
    ultimately show ?thesis using True by simp
  next
    case False
    with Cons.prems(2) have b: "b \<in> set ys" by simp
    with yys have "s_id y \<noteq> s_id b" by auto
    then have "count (mset (pair_transfer_edges x y)) (s_id x, s_id b, transfer_edge x b) = 0"
      using xy by (simp add: pair_transfer_edges_def)
    with Cons.IH [OF d b Cons.prems(3)] show ?thesis by simp
  qed
qed

lemma count_pair_edges_backward:
  assumes "distinct (map s_id (x # rest))" and "a \<in> set rest" and "s_line_id a \<noteq> s_line_id x"
  shows "count (mset (concat (map (pair_transfer_edges x) rest)))
           (s_id a, s_id x, transfer_edge a x) = 1"
  using assms
proof (induction rest)
  case Nil
  then show ?case by simp
next
  case (Cons y ys)
  from Cons.prems(1) have xy: "s_id x \<noteq> s_id y" and xys: "s_id x \<notin> s_id ` set ys"
    and yys: "s_id y \<notin> s_id ` set ys" and d: "distinct (map s_id (x # ys))"
    by auto
  show ?case
  proof (cases "y = a")
    case True
    have "count (mset (concat (map (pair_transfer_edges x) ys)))
            (s_id a, s_id x, transfer_edge a x) = 0"
      using yys True by (intro count_pair_edges_zero) auto
    moreover have "count (mset (pair_transfer_edges x a)) (s_id a, s_id x, transfer_edge a x) = 1"
      using Cons.prems(3) xy True by (auto simp: pair_transfer_edges_def)
    ultimately show ?thesis using True by simp
  next
    case False
    with Cons.prems(2) have a: "a \<in> set ys" by simp
    with yys have "s_id y \<noteq> s_id a" by auto
    then have "count (mset (pair_transfer_edges x y)) (s_id a, s_id x, transfer_edge a x) = 0"
      using xy by (simp add: pair_transfer_edges_def)
    with Cons.IH [OF d a Cons.prems(3)] show ?thesis by simp
  qed
qed

lemma count_group_transfer_edges:
  assumes "distinct (map s_id grp)" and "a \<in> set grp" and "b \<in> set grp"
    and "s_line_id a \<noteq> s_line_id b"
  shows "count (mset (group_transfer_edges grp)) (s_id a, s_id b, transfer_edge a b) = 1"
  using assms
proof (induction grp)
  case Nil
  then show ?case by simp
next
  case (Cons x rest)
  from Cons.prems(1) have xr: "s_id x \<notin> s_id ` set rest" and d: "distinct (map s_id rest)"
    by auto
  from Cons.prems(4) have ab: "a \<noteq> b" by auto
  show ?case
  proof (cases "x = a")
    case True
    with Cons.prems(3) ab have b: "b \<in> set rest" by auto
    have "count (mset (concat (map (pair_transfer_edges a) rest)))
            (s_id a, s_id b, transfer_edge a b) = 1"
      using Cons.prems(1,4) b True by (intro count_pair_edges_forward) auto
    moreover have "count (mset (group_transfer_edges rest)) (s_id a, s_id b, transfer_edge a b) = 0"
      using xr True by (intro count_group_edges_zero) auto
    ultimately show ?thesis using True by (simp add: group_transfer_edges_Cons)
  next
    case xa: False
    with Cons.prems(2) have a: "a \<in> set rest" by simp
    show ?thesis
    proof (cases "x = b")
      case True
      have "count (mset (concat (map (pair_transfer_edges b) rest)))
              (s_id a, s_id b, transfer_edge a b) = 1"
        using Cons.prems(1,4) a True by (intro count_pair_edges_backward) auto
      moreover have "count (mset (group_transfer_edges rest)) (s_id a, s_id b, transfer_edge a b) = 0"
        using xr True by (intro count_group_edges_zero) auto
      ultimately show ?thesis using True by (simp add: group_transfer_edges_Cons)
    next
      case False
      with Cons.prems(3) have b: "b \<in> set rest" by simp
      from a b xr have "s_id a \<noteq> s_id x" "s_id b \<noteq> s_id x" by (metis imageI)+
      then have "count (mset (concat (map (pair_transfer_edges x) rest)))
              (s_id a, s_id b, transfer_edge a b) = 0"
        by (intro count_pair_edges_zero) auto
      with Cons.IH [OF d a b Cons.prems(4)] show ?thesis
        by (simp add: group_transfer_edges_Cons)
    qed
  qed
qed

lemma sum_list_single:
  assumes "distinct ns" and "k \<in> set ns" and "\<forall>n \<in> set ns. n \<noteq> k \<longrightarrow> f n = (0::nat)"
  shows "sum_list (map f ns) = f k"
  using assms
proof (induction ns)
  case Nil
  then show ?case by simp
next
  case (Cons n ns)
  show ?case
  proof (cases "n = k")
    case True
    with Cons.prems have "\<forall>m \<in> set ns. f m = 0" by auto
    then have "sum_list (map f ns) = 0" by simp
    with True show ?thesis by simp
  next
    case False
    with Cons.prems have "f n = 0" "k \<in> set ns" "distinct ns"
      "\<forall>m \<in> set ns. m \<noteq> k \<longrightarrow> f m = 0"
      by auto
    with Cons.IH show ?thesis by simp
  qed
qed

lemma count_concat_map:
  "count (mset (concat (map f ns))) t = sum_list (map (\<lambda>n. count (mset (f n)) t) ns)"
  by (induction ns) simp_all

lemma count_expected_transfer_edges:
  assumes d: "distinct (map s_id sts)" and a: "a \<in> set sts" and b: "b \<in> set sts"
    and n: "s_name b = s_name a" and l: "s_line_id a \<noteq> s_line_id b"
    and f: "list_all s_is_interchange (name_group sts (s_name a))"
  shows "count (mset (expected_transfer_edges sts)) (s_id a, s_id b, transfer_edge a b) = 1"
proof -
  let ?t = "(s_id a, s_id b, transfer_edge a b)"
  let ?f = "\<lambda>n. if 1 < length (name_group sts n) \<and> list_all s_is_interchange (name_group sts n)
                  then group_transfer_edges (name_group sts n) else []"
  have mem: "a \<in> set (name_group sts (s_name a))" "b \<in> set (name_group sts (s_name a))"
    using a b n by (simp_all add: name_group_def)
  from l have "a \<noteq> b" by auto
  with mem have len: "1 < length (name_group sts (s_name a))" by (rule two_members_length)
  have dg: "distinct (map s_id (name_group sts (s_name a)))"
    using d by (simp add: name_group_def distinct_map_filter)
  have own: "count (mset (?f (s_name a))) ?t = 1"
    using len f count_group_transfer_edges [OF dg mem l] by simp
  have other: "count (mset (?f m)) ?t = 0" if "m \<noteq> s_name a" for m
  proof -
    have "s_id a \<notin> s_id ` set (name_group sts m)"
    proof
      assume "s_id a \<in> s_id ` set (name_group sts m)"
      then obtain x where x: "x \<in> set sts" "s_name x = m" "s_id x = s_id a"
        by (auto simp: name_group_def)
      from distinct_map_eq [OF d x(1) a x(3)] x(2) that show False by simp
    qed
    then have "count (mset (group_transfer_edges (name_group sts m))) ?t = 0"
      by (intro count_group_edges_zero) simp
    then show ?thesis by simp
  qed
  have "count (mset (expected_transfer_edges sts)) ?t =
          sum_list (map (\<lambda>m. count (mset (?f m)) ?t) (remdups (map s_name sts)))"
    unfolding expected_transfer_edges_def by (rule count_concat_map)
  also have "\<dots> = count (mset (?f (s_name a))) ?t"
    using a other by (intro sum_list_single) auto
  finally show ?thesis using own by simp
qed

lemma group_transfer_edges_weights:
  "(u, v, e) \<in> set (group_transfer_edges grp) \<Longrightarrow>
     e_stations e = 0 \<and> e_time e = 5 \<and> e_fare e = 2"
  by (induction grp)
     (auto simp: group_transfer_edges_Cons pair_transfer_edges_def transfer_edge_def
        split: if_splits)

lemma transfer_edges_weights:
  "list_all (\<lambda>(u, v, e). e_stations e = 0 \<and> e_time e = 5.0 \<and> e_fare e = 2.0)
     (expected_transfer_edges sts)"
  unfolding list_all_iff expected_transfer_edges_def
  by (auto dest: group_transfer_edges_weights split: if_splits)

text \<open>The transfer edges of the built graph, counted.\<close>

lemma transfer_edges_multiset:
  "mset (transfer_edges (graph (build_graph db))) = mset (expected_transfer_edges (db_stations db))
   \<and> list_all (\<lambda>(u, v, e). e_stations e = 0 \<and> e_time e = 5.0 \<and> e_fare e = 2.0)
       (transfer_edges (graph (build_graph db)))
   \<and> (distinct (map s_id (db_stations db)) \<and> a \<in> set (db_stations db) \<and> b \<in> set (db_stations db)
        \<and> s_name b = s_name a \<and> s_line_id a \<noteq> s_line_id b
        \<and> list_all s_is_interchange (name_group (db_stations db) (s_name a))
       \<longrightarrow> count (mset (transfer_edges (graph (build_graph db))))
             (s_id a, s_id b, transfer_edge a b) = 1
           \<and> count (mset (transfer_edges (graph (build_graph db))))
             (s_id b, s_id a, transfer_edge b a) = 1)
   \<and> (\<not> (1 < length (name_group (db_stations db) n)
          \<and> list_all s_is_interchange (name_group (db_stations db) n))
       \<longrightarrow> (\<forall>s. s \<in> set (name_group (db_stations db) n) \<and> distinct (map s_id (db_stations db))
              \<longrightarrow> filter (\<lambda>(u, v, e). u = s_id s \<or> v = s_id s)
                    (transfer_edges (graph (build_graph db))) = []))"
proof (intro conjI impI allI)
  let ?sts = "db_stations db"
  let ?T = "transfer_edges (graph (build_graph db))"
  show m: "mset ?T = mset (expected_transfer_edges ?sts)"
    by (rule mset_transfer_edges_build_graph)
  have "set ?T = set (expected_transfer_edges ?sts)" using m by (rule mset_eq_setD)
  with transfer_edges_weights [of ?sts]
  show "list_all (\<lambda>(u, v, e). e_stations e = 0 \<and> e_time e = 5.0 \<and> e_fare e = 2.0) ?T"
    by (simp add: list_all_iff)
  {
    assume h: "distinct (map s_id ?sts) \<and> a \<in> set ?sts \<and> b \<in> set ?sts
        \<and> s_name b = s_name a \<and> s_line_id a \<noteq> s_line_id b
        \<and> list_all s_is_interchange (name_group ?sts (s_name a))"
    then show "count (mset ?T) (s_id a, s_id b, transfer_edge a b) = 1"
      unfolding m by (intro count_expected_transfer_edges) simp_all
    from h have "list_all s_is_interchange (name_group ?sts (s_name b))" by simp
    with h show "count (mset ?T) (s_id b, s_id a, transfer_edge b a) = 1"
      unfolding m by (intro count_expected_transfer_edges) simp_all
  }
  {
    fix s
    assume c: "\<not> (1 < length (name_group ?sts n) \<and> list_all s_is_interchange (name_group ?sts n))"
      and s: "s \<in> set (name_group ?sts n) \<and> distinct (map s_id ?sts)"
    have "\<not> (u = s_id s \<or> v = s_id s)" if t: "(u, v, e) \<in> set (expected_transfer_edges ?sts)" for u v e
    proof -
      from t obtain m where mem: "(u, v, e) \<in> set (group_transfer_edges (name_group ?sts m))"
        and ok: "1 < length (name_group ?sts m) \<and> list_all s_is_interchange (name_group ?sts m)"
        by (auto simp: expected_transfer_edges_def split: if_splits)
      from ok c have mn: "m \<noteq> n" by auto
      from group_edges_ids [OF mem] have ids: "u \<in> s_id ` set (name_group ?sts m)"
        "v \<in> s_id ` set (name_group ?sts m)" by simp_all
      have "s_id s \<notin> s_id ` set (name_group ?sts m)"
      proof
        assume "s_id s \<in> s_id ` set (name_group ?sts m)"
        then obtain x where x: "x \<in> set ?sts" "s_name x = m" "s_id x = s_id s"
          by (auto simp: name_group_def)
        from s have "s \<in> set ?sts" "s_name s = n" "distinct (map s_id ?sts)"
          by (simp_all add: name_group_def)
        with distinct_map_eq [OF this(3) x(1) this(1) x(3)] x(2) mn show False by simp
      qed
      with ids show ?thesis by metis
    qed
    then have "\<forall>t \<in> set ?T. \<not> (fst t = s_id s \<or> fst (snd t) = s_id s)"
      using mset_eq_setD [OF m] by auto
    then show "filter (\<lambda>(u, v, e). u = s_id s \<or> v = s_id s) ?T = []"
      by (auto simp: filter_empty_conv)
  }
qed

text \<open>
  C5: the transfer edges of the built graph are, as a multiset, \<open>expected_transfer_edges\<close>:
  for every name whose group has more than one member, all of them flagged as an
  interchange, one edge in each direction for every unordered pair of members on
  different lines, and nothing for any other name. Every transfer edge has 0 stations,
  time 5.0 and fare 2.0. With distinct station ids, a cross-line pair of a fully flagged
  group has exactly one transfer edge in each direction (the count of the edge in the
  multiset is 1), and a station whose name group has a single member or a member that is
  not flagged is at neither end of any transfer edge. In terms of adjacency lists:
  \<^verbatim>\<open>graph[u]\<close> holds a transfer edge to \<open>v\<close> exactly when two stations with these ids have
  the same name and different lines and every station of that name is flagged.
\<close>

theorem transfer_edges_of_interchange_groups:
  "(mset (transfer_edges (graph (build_graph db))) = mset (expected_transfer_edges (db_stations db))
    \<and> list_all (\<lambda>(u, v, e). e_stations e = 0 \<and> e_time e = 5.0 \<and> e_fare e = 2.0)
        (transfer_edges (graph (build_graph db)))
    \<and> (distinct (map s_id (db_stations db)) \<and> a \<in> set (db_stations db) \<and> b \<in> set (db_stations db)
         \<and> s_name b = s_name a \<and> s_line_id a \<noteq> s_line_id b
         \<and> list_all s_is_interchange (name_group (db_stations db) (s_name a))
        \<longrightarrow> count (mset (transfer_edges (graph (build_graph db))))
              (s_id a, s_id b, transfer_edge a b) = 1
            \<and> count (mset (transfer_edges (graph (build_graph db))))
              (s_id b, s_id a, transfer_edge b a) = 1)
    \<and> (\<not> (1 < length (name_group (db_stations db) n)
           \<and> list_all s_is_interchange (name_group (db_stations db) n))
        \<longrightarrow> (\<forall>s. s \<in> set (name_group (db_stations db) n) \<and> distinct (map s_id (db_stations db))
               \<longrightarrow> filter (\<lambda>(u, v, e). u = s_id s \<or> v = s_id s)
                     (transfer_edges (graph (build_graph db))) = [])))
   \<and> (((v, e) \<in> set (dd_get (graph (build_graph db)) u) \<and> e_line_change e = Some True \<longleftrightarrow>
        (\<exists>a \<in> set (db_stations db). \<exists>b \<in> set (db_stations db).
           s_id a = u \<and> s_id b = v \<and> s_name b = s_name a \<and> s_line_id a \<noteq> s_line_id b
           \<and> 1 < length (filter (\<lambda>s. s_name s = s_name a) (db_stations db))
           \<and> list_all s_is_interchange (filter (\<lambda>s. s_name s = s_name a) (db_stations db))
           \<and> e = \<lparr>e_stations = 0, e_time = 5.0, e_fare = 2.0, e_line_id = None,
                   e_line_change = Some True, e_from_line_id = Some (s_line_id a),
                   e_to_line_id = Some (s_line_id b)\<rparr>))
      \<and> (distinct (map s_id (db_stations db)) \<and> c \<in> set (db_stations db)
           \<and> \<not> list_all s_is_interchange (filter (\<lambda>s. s_name s = s_name c) (db_stations db))
          \<longrightarrow> filter (\<lambda>(v, e). e_line_change e = Some True)
                (dd_get (graph (build_graph db)) (s_id c)) = []))"
  by (rule conjI [OF transfer_edges_multiset transfer_edge_membership])

theorem transfer_edges_of_interchange_groups_witness:
  "distinct (map s_id (db_stations interchange_db))
   \<and> mk_station 2 ''X'' 1 2 True \<in> set (db_stations interchange_db)
   \<and> mk_station 3 ''X'' 2 1 True \<in> set (db_stations interchange_db)
   \<and> s_name (mk_station 3 ''X'' 2 1 True) = s_name (mk_station 2 ''X'' 1 2 True)
   \<and> s_line_id (mk_station 2 ''X'' 1 2 True) \<noteq> s_line_id (mk_station 3 ''X'' 2 1 True)
   \<and> list_all s_is_interchange
       (name_group (db_stations interchange_db) (s_name (mk_station 2 ''X'' 1 2 True)))
   \<and> count (mset (transfer_edges (graph (build_graph interchange_db))))
       (s_id (mk_station 2 ''X'' 1 2 True), s_id (mk_station 3 ''X'' 2 1 True),
        transfer_edge (mk_station 2 ''X'' 1 2 True) (mk_station 3 ''X'' 2 1 True)) = 1
   \<and> distinct (map s_id (db_stations half_flagged_db))
   \<and> mk_station 2 ''X'' 1 2 True \<in> set (name_group (db_stations half_flagged_db) ''X'')
   \<and> \<not> list_all s_is_interchange (name_group (db_stations half_flagged_db) ''X'')
   \<and> filter (\<lambda>(u, v, e). u = s_id (mk_station 2 ''X'' 1 2 True) \<or> v = s_id (mk_station 2 ''X'' 1 2 True))
       (transfer_edges (graph (build_graph half_flagged_db))) = []
   \<and> filter (\<lambda>(v, e). e_line_change e = Some True)
       (dd_get (graph (build_graph half_flagged_db)) (s_id (mk_station 2 ''X'' 1 2 True))) = []
   \<and> length (transfer_edges (graph (build_graph three_line_interchange_db))) = 6"
proof -
  let ?X1 = "mk_station 2 ''X'' 1 2 True"
  let ?X2 = "mk_station 3 ''X'' 2 1 True"
  have h1: "distinct (map s_id (db_stations interchange_db))
      \<and> ?X1 \<in> set (db_stations interchange_db) \<and> ?X2 \<in> set (db_stations interchange_db)
      \<and> s_name ?X2 = s_name ?X1 \<and> s_line_id ?X1 \<noteq> s_line_id ?X2
      \<and> list_all s_is_interchange (name_group (db_stations interchange_db) (s_name ?X1))"
    by code_simp
  have h2: "\<not> (1 < length (name_group (db_stations half_flagged_db) ''X'')
      \<and> list_all s_is_interchange (name_group (db_stations half_flagged_db) ''X''))"
    by code_simp
  have h3: "?X1 \<in> set (name_group (db_stations half_flagged_db) ''X'')
      \<and> distinct (map s_id (db_stations half_flagged_db))"
    by code_simp
  have h4: "distinct (map s_id (db_stations half_flagged_db))
      \<and> ?X1 \<in> set (db_stations half_flagged_db)
      \<and> \<not> list_all s_is_interchange
           (filter (\<lambda>s. s_name s = s_name ?X1) (db_stations half_flagged_db))"
    by code_simp
  have h5: "\<not> list_all s_is_interchange (name_group (db_stations half_flagged_db) ''X'')"
    by code_simp
  have six: "length (transfer_edges (graph (build_graph three_line_interchange_db))) = 6"
    by code_simp
  note t1 = transfer_edges_of_interchange_groups
              [where db = interchange_db and a = "?X1" and b = "?X2"]
  note t2 = transfer_edges_of_interchange_groups
              [where db = half_flagged_db and n = "''X''" and c = "?X1"]
  from t1 [THEN conjunct1, THEN conjunct2, THEN conjunct2, THEN conjunct1, THEN mp, OF h1]
  have c1: "count (mset (transfer_edges (graph (build_graph interchange_db))))
       (s_id ?X1, s_id ?X2, transfer_edge ?X1 ?X2) = 1"
    by (rule conjunct1)
  from t2 [THEN conjunct1, THEN conjunct2, THEN conjunct2, THEN conjunct2, THEN mp, OF h2,
           THEN spec, THEN mp, OF h3]
  have c2: "filter (\<lambda>(u, v, e). u = s_id ?X1 \<or> v = s_id ?X1)
       (transfer_edges (graph (build_graph half_flagged_db))) = []" .
  from t2 [THEN conjunct2, THEN conjunct2, THEN mp, OF h4]
  have c3: "filter (\<lambda>(v, e). e_line_change e = Some True)
       (dd_get (graph (build_graph half_flagged_db)) (s_id ?X1)) = []" .
  from h1 h3 h5 c1 c2 c3 six show ?thesis by (intro conjI) (erule conjE | assumption)+
qed

text \<open>
  C6: for a line \<open>l\<close> of the line table (line ids distinct) whose stations carry the
  sequence numbers 1 to \<open>N\<close>, the sorted list \<open>S\<close> of its stations has the station with
  sequence number \<open>i + 1\<close> at index \<open>i\<close>, and the ride edges of the line in the built graph
  are exactly the edges between neighbours of \<open>S\<close>, one in each direction: \<open>2 * (N - 1)\<close>
  edges, each with 1 station and time 2.5.
\<close>

theorem ride_edges_of_line:
  assumes "l \<in> set (db_lines db)" and "distinct (map l_id (db_lines db))"
    and "sort (map s_station_number_on_line
                 (filter (\<lambda>s. s_line_id s = l_id l) (db_stations db))) = [1..int N]"
  shows "mset (sorted_stations (db_stations db) l) =
           mset (filter (\<lambda>s. s_line_id s = l_id l) (db_stations db))
       \<and> map s_station_number_on_line (sorted_stations (db_stations db) l) = [1..int N]
       \<and> mset (line_ride_edges (graph (build_graph db)) l) =
           mset (adjacent_ride_edges l (sorted_stations (db_stations db) l))
       \<and> length (line_ride_edges (graph (build_graph db)) l) = 2 * (N - 1)
       \<and> list_all (\<lambda>(u, v, e). e_stations e = 1 \<and> e_time e = 2.5)
           (line_ride_edges (graph (build_graph db)) l)"
proof -
  let ?S = "sorted_stations (db_stations db) l"
  let ?E = "line_ride_edges (graph (build_graph db)) l"
  have m: "mset ?S = mset (filter (\<lambda>s. s_line_id s = l_id l) (db_stations db))"
    by (simp add: sorted_stations_def)
  have seq: "map s_station_number_on_line ?S = [1..int N]"
    using assms(3) by (simp add: sorted_stations_def map_key_sort_key)
  have "length (map s_station_number_on_line ?S) = N"
    unfolding seq by simp
  then have len: "length ?S = N" by simp
  have e: "mset ?E = mset (adjacent_ride_edges l ?S)"
    by (rule line_ride_edges_build_graph [OF assms(1,2)])
  have "length ?E = length (adjacent_ride_edges l ?S)"
    using e by (rule mset_eq_length)
  then have n: "length ?E = 2 * (N - 1)"
    by (simp add: length_adjacent_ride_edges len)
  have "set ?E = set (adjacent_ride_edges l ?S)"
    using e by (rule mset_eq_setD)
  then have w: "list_all (\<lambda>(u, v, e). e_stations e = 1 \<and> e_time e = 2.5) ?E"
    by (auto simp: list_all_iff adjacent_ride_edges_def ride_edge_def)
  from m seq e n w show ?thesis by simp
qed

theorem ride_edges_of_line_witness:
  "red_line \<in> set (db_lines four_station_line)
   \<and> distinct (map l_id (db_lines four_station_line))
   \<and> sort (map s_station_number_on_line
             (filter (\<lambda>s. s_line_id s = l_id red_line) (db_stations four_station_line)))
       = [1..int 4]
   \<and> length (line_ride_edges (graph (build_graph four_station_line)) red_line) = 6"
proof -
  have a: "red_line \<in> set (db_lines four_station_line)" by code_simp
  have b: "distinct (map l_id (db_lines four_station_line))" by code_simp
  have c: "sort (map s_station_number_on_line
             (filter (\<lambda>s. s_line_id s = l_id red_line) (db_stations four_station_line)))
       = [1..int 4]"
    by code_simp
  from ride_edges_of_line [OF a b c] a b c show ?thesis by simp
qed

section \<open>The builder never fails\<close>

text \<open>The two indexes of the built graph, as lookups.\<close>

lemma find_snoc:
  "find P (xs @ [x]) = (case find P xs of None \<Rightarrow> (if P x then Some x else None) | Some y \<Rightarrow> Some y)"
  by (induction xs) simp_all

lemma find_SomeD: "find P xs = Some x \<Longrightarrow> x \<in> set xs \<and> P x"
  by (induction xs) (auto split: if_splits)

lemma map_of_fold_ids:
  "map_of (fold (\<lambda>s m. AList.update (s_id s) s m) sts m) i =
     (case find (\<lambda>s. s_id s = i) (rev sts) of None \<Rightarrow> map_of m i | Some s \<Rightarrow> Some s)"
proof (induction sts arbitrary: m)
  case Nil
  show ?case by simp
next
  case (Cons s sts)
  show ?case
    by (simp add: Cons.IH find_snoc update_conv' split: option.splits)
qed

lemma id_index_lookup:
  "map_of (station_id_to_obj (build_graph db)) i = find (\<lambda>s. s_id s = i) (rev (db_stations db))"
  by (simp add: build_graph_def Let_def populate_station_id_to_obj_def map_of_fold_ids
      split: option.splits)

lemma name_index_lookup:
  "map_of (station_map (build_graph db)) n =
     (if name_group (db_stations db) n = [] then None else Some (name_group (db_stations db) n))"
  by (simp add: build_graph_def Let_def populate_station_map_def map_of_fold_station_map
      name_group_def dd_get_def)

lemma name_index_holds:
  "list_all (\<lambda>s. s \<in> set (dd_get (station_map (build_graph db)) (s_name s))) (db_stations db)"
proof -
  have "s \<in> set (dd_get (station_map (build_graph db)) (s_name s))"
    if "s \<in> set (db_stations db)" for s
  proof -
    from that have m: "s \<in> set (name_group (db_stations db) (s_name s))"
      by (simp add: name_group_def)
    then have "name_group (db_stations db) (s_name s) \<noteq> []" by auto
    with m show ?thesis by (simp add: dd_get_def name_index_lookup)
  qed
  then show ?thesis by (simp add: list_all_iff)
qed

lemma find_rev_distinct:
  assumes "distinct (map f xs)" and "x \<in> set xs"
  shows "find (\<lambda>y. f y = f x) (rev xs) = Some x"
proof -
  from assms(2) have "\<exists>y. find (\<lambda>y. f y = f x) (rev xs) = Some y"
    by (cases "find (\<lambda>y. f y = f x) (rev xs)") (auto simp: find_None_iff)
  then obtain y where y: "find (\<lambda>y. f y = f x) (rev xs) = Some y" ..
  from find_SomeD [OF y] have "y \<in> set xs" "f y = f x" by simp_all
  from distinct_map_eq [OF assms(1) this(1) assms(2) this(2)] y show ?thesis by simp
qed

lemma id_index_holds:
  assumes "distinct (map s_id (db_stations db))"
  shows "list_all (\<lambda>s. map_of (station_id_to_obj (build_graph db)) (s_id s) = Some s)
           (db_stations db)"
  unfolding list_all_iff id_index_lookup
  using find_rev_distinct [OF assms] by blast

text \<open>C3 as stated fails: a line whose first station has the sequence number -1 is
  malformed input in the sense of the specification, and the builder returns a graph
  for it, with both stations in both indexes and the two ride edges between them.\<close>

theorem negative_sequence_builds:
  "spec_malformed negative_sequence_db
   \<and> MetroGraph negative_sequence_db =
       Inr \<lparr>graph = [(1, [(2, ride_edge (mk_station 1 ''A'' 1 (-1) False) red_line)]),
                      (2, [(1, ride_edge (mk_station 2 ''B'' 1 1 False) red_line)])],
            station_map = [(''A'', [mk_station 1 ''A'' 1 (-1) False]),
                           (''B'', [mk_station 2 ''B'' 1 1 False])],
            station_id_to_obj = [(1, mk_station 1 ''A'' 1 (-1) False),
                                 (2, mk_station 2 ''B'' 1 1 False)],
            line_table = [red_line]\<rparr>"
  by code_simp

text \<open>
  C3, as the code behaves: the builder has no failure; for every list of lines and
  stations the constructor returns a graph. Its name index maps every name to the list
  of all stations of that name, in the order of the records, and has no entry for any
  other name, so every station is held in the group of its name. Its id index maps an id
  to the last station with that id, so with distinct ids every station is held under its
  id. Its line table is the list of lines, and its edges are, as a multiset, the ride
  edges between neighbours of every line's sorted station list together with the
  transfer edges of the fully flagged name groups.
\<close>

theorem build_never_fails:
  "\<exists>g. MetroGraph db = Inr g
       \<and> (\<forall>n. map_of (station_map g) n =
                (if name_group (db_stations db) n = [] then None
                 else Some (name_group (db_stations db) n)))
       \<and> list_all (\<lambda>s. s \<in> set (dd_get (station_map g) (s_name s))) (db_stations db)
       \<and> (\<forall>i. map_of (station_id_to_obj g) i = find (\<lambda>s. s_id s = i) (rev (db_stations db)))
       \<and> (distinct (map s_id (db_stations db)) \<longrightarrow>
            list_all (\<lambda>s. map_of (station_id_to_obj g) (s_id s) = Some s) (db_stations db))
       \<and> line_table g = db_lines db
       \<and> mset (all_edges (graph g)) =
           mset (all_ride_edges db) + mset (expected_transfer_edges (db_stations db))"
proof (intro exI conjI allI impI)
  show "MetroGraph db = Inr (build_graph db)" by (simp add: MetroGraph_def)
  show "map_of (station_map (build_graph db)) n =
          (if name_group (db_stations db) n = [] then None
           else Some (name_group (db_stations db) n))" for n
    by (rule name_index_lookup)
  show "list_all (\<lambda>s. s \<in> set (dd_get (station_map (build_graph db)) (s_name s)))
          (db_stations db)"
    by (rule name_index_holds)
  show "map_of (station_id_to_obj (build_graph db)) i =
          find (\<lambda>s. s_id s = i) (rev (db_stations db))" for i
    by (rule id_index_lookup)
  show "list_all (\<lambda>s. map_of (station_id_to_obj (build_graph db)) (s_id s) = Some s)
          (db_stations db)"
    if "distinct (map s_id (db_stations db))"
    using that by (rule id_index_holds)
  show "line_table (build_graph db) = db_lines db" by (simp add: build_graph_def Let_def)
  show "mset (all_edges (graph (build_graph db))) =
          mset (all_ride_edges db) + mset (expected_transfer_edges (db_stations db))"
    by (rule mset_all_edges_build_graph)
qed

theorem build_never_fails_witness:
  "distinct (map s_id (db_stations negative_sequence_db))
   \<and> (\<exists>g. MetroGraph negative_sequence_db = Inr g
          \<and> list_all (\<lambda>s. s \<in> set (dd_get (station_map g) (s_name s)))
              (db_stations negative_sequence_db)
          \<and> list_all (\<lambda>s. map_of (station_id_to_obj g) (s_id s) = Some s)
              (db_stations negative_sequence_db)
          \<and> mset (all_edges (graph g)) =
              mset (all_ride_edges negative_sequence_db)
              + mset (expected_transfer_edges (db_stations negative_sequence_db)))"
proof -
  have d: "distinct (map s_id (db_stations negative_sequence_db))" by code_simp
  from build_never_fails [of negative_sequence_db] d show ?thesis by blast
qed

section \<open>The loop of the search and its invariants\<close>

lemma search_loop_invariant:
  assumes "search_loop g e visited rs best = Inr best'"
    and "I visited rs best"
    and "\<And>visited rs best.
           I visited rs best \<Longrightarrow> pq rs \<noteq> [] \<Longrightarrow> entry_id (heappop (pq rs)) \<in> visited \<Longrightarrow>
           I visited (rs\<lparr>pq := heappop_rest (pq rs)\<rparr>) best"
    and "\<And>visited rs best cur best1.
           I visited rs best \<Longrightarrow> pq rs \<noteq> [] \<Longrightarrow> entry_id (heappop (pq rs)) \<notin> visited \<Longrightarrow>
           map_of (station_id_to_obj g) (entry_id (heappop (pq rs))) = Some cur \<Longrightarrow>
           s_name cur = e \<Longrightarrow>
           record_candidate (heappop (pq rs)) (rs\<lparr>pq := heappop_rest (pq rs)\<rparr>) best = Inr best1 \<Longrightarrow>
           I (insert (entry_id (heappop (pq rs))) visited) (rs\<lparr>pq := heappop_rest (pq rs)\<rparr>) best1"
    and "\<And>visited rs best cur rs1.
           I visited rs best \<Longrightarrow> pq rs \<noteq> [] \<Longrightarrow> entry_id (heappop (pq rs)) \<notin> visited \<Longrightarrow>
           map_of (station_id_to_obj g) (entry_id (heappop (pq rs))) = Some cur \<Longrightarrow>
           s_name cur \<noteq> e \<Longrightarrow>
           relax_all g (heappop (pq rs)) cur (dd_get (graph g) (entry_id (heappop (pq rs))))
             (rs\<lparr>pq := heappop_rest (pq rs)\<rparr>) = Inr rs1 \<Longrightarrow>
           I (insert (entry_id (heappop (pq rs))) visited) rs1 best"
  shows "\<exists>visited' rs'. I visited' rs' best' \<and> pq rs' = []"
  using assms
proof (induction g e visited rs best rule: search_loop.induct)
  case (1 g e visited rs best)
  note run = "1.prems"(1) and inv = "1.prems"(2)
    and skip = "1.prems"(3) and cand = "1.prems"(4) and expand = "1.prems"(5)
  show ?case
  proof (cases "pq rs = []")
    case True
    with run have "best' = best" by (simp add: search_loop.simps [of g e visited rs best])
    with inv True show ?thesis by blast
  next
    case ne: False
    show ?thesis
    proof (cases "entry_id (heappop (pq rs)) \<in> visited")
      case True
      with ne run
      have r: "search_loop g e visited (rs\<lparr>pq := heappop_rest (pq rs)\<rparr>) best = Inr best'"
        by (simp add: search_loop.simps [of g e visited rs best])
      show ?thesis
        by (rule "1.IH"(1) [OF ne True r skip [OF inv ne True] skip cand expand])
    next
      case nv: False
      from ne nv run obtain cur where
        cur: "map_of (station_id_to_obj g) (entry_id (heappop (pq rs))) = Some cur"
        by (auto simp: search_loop.simps [of g e visited rs best] split: option.splits)
      show ?thesis
      proof (cases "s_name cur = e")
        case True
        with ne nv cur run obtain b1 where
          b1: "record_candidate (heappop (pq rs)) (rs\<lparr>pq := heappop_rest (pq rs)\<rparr>) best = Inr b1"
          and r: "search_loop g e (insert (entry_id (heappop (pq rs))) visited)
                      (rs\<lparr>pq := heappop_rest (pq rs)\<rparr>) b1 = Inr best'"
          by (auto simp: search_loop.simps [of g e visited rs best] split: sum.splits)
        show ?thesis
          by (rule "1.IH"(2) [OF ne nv cur True b1 r cand [OF inv ne nv cur True b1] skip cand expand])
      next
        case False
        with ne nv cur run obtain rs1 where
          r1: "relax_all g (heappop (pq rs)) cur (dd_get (graph g) (entry_id (heappop (pq rs))))
                 (rs\<lparr>pq := heappop_rest (pq rs)\<rparr>) = Inr rs1"
          and r: "search_loop g e (insert (entry_id (heappop (pq rs))) visited) rs1 best = Inr best'"
          by (auto simp: search_loop.simps [of g e visited rs best] split: sum.splits)
        show ?thesis
          by (rule "1.IH"(3) [OF ne nv cur False r1 r expand [OF inv ne nv cur False r1] skip cand expand])
      qed
    qed
  qed
qed

lemma relax_unfold:
  "relax g m cur nbr rs =
     (case map_of (station_id_to_obj g) (fst nbr) of
        None \<Rightarrow> Inl KeyError
      | Some nb \<Rightarrow>
         (case path_info rs (entry_id m) of
            None \<Rightarrow> Inl KeyError
          | Some info \<Rightarrow>
             (case edge_values g cur nb (snd nbr) (entry_fare m) (entry_time m) (entry_segment m)
                     (pi_interchanges info) (pi_line_changes info) of
                Inl err \<Rightarrow> Inl err
              | Inr v \<Rightarrow>
                 if lt_inf (entry_count m + e_stations (snd nbr)) (distances rs (fst nbr))
                 then Inr \<lparr>pq = pq rs @ [pushed_entry m nbr v],
                           distances = (distances rs)(fst nbr \<mapsto> entry_count m + e_stations (snd nbr)),
                           path_info = (path_info rs)(fst nbr \<mapsto> pushed_info m nbr v)\<rparr>
                 else Inr rs)))"
  by (cases m)
     (simp add: relax_def entry_id_def entry_count_def entry_path_def entry_fare_def
        entry_time_def entry_segment_def pushed_entry_def pushed_info_def Let_def
        split: option.splits sum.splits prod.splits)

lemma relax_Inr:
  assumes "relax g m cur nbr rs = Inr rs'"
  obtains nb info v where
    "map_of (station_id_to_obj g) (fst nbr) = Some nb"
    "path_info rs (entry_id m) = Some info"
    "edge_values g cur nb (snd nbr) (entry_fare m) (entry_time m) (entry_segment m)
       (pi_interchanges info) (pi_line_changes info) = Inr v"
    "rs' = (if lt_inf (entry_count m + e_stations (snd nbr)) (distances rs (fst nbr))
            then \<lparr>pq = pq rs @ [pushed_entry m nbr v],
                  distances = (distances rs)(fst nbr \<mapsto> entry_count m + e_stations (snd nbr)),
                  path_info = (path_info rs)(fst nbr \<mapsto> pushed_info m nbr v)\<rparr>
            else rs)"
  using assms unfolding relax_unfold
  by (auto split: option.splits sum.splits if_splits)

lemma LineChangeDetail_wrong_keyword:
  "LineChangeDetail [(''_from'', x), (''to'', y), (''at'', z)] = Inl ValidationError"
  by (simp add: LineChangeDetail_def)

lemma edge_values_transfer:
  "e_line_change ew = Some True \<Longrightarrow> edge_values g cur nb ew f t s ints lcs \<noteq> Inr v"
  by (simp add: edge_values_def LineChangeDetail_wrong_keyword split: option.splits)

lemma edge_values_ride:
  assumes "edge_values g cur nb ew f t s ints lcs = Inr v"
  shows "e_line_change ew \<noteq> Some True
       \<and> fst v = (if s + 1 \<le> 2 then f else f + 5)
       \<and> fst (snd (snd (snd v))) = s + 1
       \<and> fst (snd (snd (snd (snd v)))) = ints \<and> snd (snd (snd (snd (snd v)))) = lcs"
proof (cases "e_line_change ew = Some True")
  case True
  with assms edge_values_transfer show ?thesis by blast
next
  case False
  with assms show ?thesis
    by (auto simp: edge_values_def split: option.splits)
qed

lemma relax_entry_ok:
  assumes "relax g m cur nbr rs = Inr rs'" and "entry_ok m" and "edge_ok (snd nbr)"
    and "\<forall>x \<in> set (pq rs). entry_ok x"
  shows "\<forall>x \<in> set (pq rs'). entry_ok x"
proof -
  from assms(1) obtain nb info v where
    "map_of (station_id_to_obj g) (fst nbr) = Some nb"
    and "path_info rs (entry_id m) = Some info"
    and v: "edge_values g cur nb (snd nbr) (entry_fare m) (entry_time m) (entry_segment m)
          (pi_interchanges info) (pi_line_changes info) = Inr v"
    and rs': "rs' = (if lt_inf (entry_count m + e_stations (snd nbr)) (distances rs (fst nbr))
            then \<lparr>pq = pq rs @ [pushed_entry m nbr v],
                  distances = (distances rs)(fst nbr \<mapsto> entry_count m + e_stations (snd nbr)),
                  path_info = (path_info rs)(fst nbr \<mapsto> pushed_info m nbr v)\<rparr>
            else rs)"
    by (rule relax_Inr)
  from edge_values_ride [OF v] assms(3) have one: "e_stations (snd nbr) = 1"
    and fare: "fst v = (if entry_segment m + 1 \<le> 2 then entry_fare m else entry_fare m + 5)"
    and seg: "fst (snd (snd (snd v))) = entry_segment m + 1"
    by (simp_all add: edge_ok_def)
  have "entry_ok (pushed_entry m nbr v)"
    using assms(2)
    by (auto simp: entry_ok_def pushed_entry_def one fare seg nat_add_distrib
        entry_count_def entry_segment_def entry_fare_def entry_path_def)
  with rs' assms(4) show ?thesis by (auto split: if_splits)
qed

lemma relax_all_entry_ok:
  assumes "relax_all g m cur nbrs rs = Inr rs'" and "entry_ok m"
    and "\<forall>nbr \<in> set nbrs. edge_ok (snd nbr)" and "\<forall>x \<in> set (pq rs). entry_ok x"
  shows "\<forall>x \<in> set (pq rs'). entry_ok x"
  using assms
proof (induction nbrs arbitrary: rs)
  case Nil
  then show ?case by simp
next
  case (Cons nbr nbrs)
  from Cons.prems(1) obtain rs1 where r1: "relax g m cur nbr rs = Inr rs1"
    and rest: "relax_all g m cur nbrs rs1 = Inr rs'"
    by (auto split: sum.splits)
  from relax_entry_ok [OF r1 Cons.prems(2)] Cons.prems(3,4)
  have "\<forall>x \<in> set (pq rs1). entry_ok x" by simp
  from Cons.IH [OF rest Cons.prems(2) _ this] Cons.prems(3) show ?case by simp
qed

lemma record_candidate_best_ok:
  assumes "record_candidate m rs best = Inr best'" and "entry_ok m" and "best_ok best"
  shows "best_ok best'"
  using assms
  by (cases m)
     (auto simp: record_candidate_def entry_ok_def best_ok_def entry_count_def entry_segment_def
        entry_fare_def entry_path_def split: option.splits if_splits)

lemma search_loop_best_ok:
  assumes run: "search_loop g e visited rs best = Inr best'"
    and g: "edges_ok g" and pq: "\<forall>x \<in> set (pq rs). entry_ok x" and best: "best_ok best"
  shows "best_ok best'"
proof -
  have "\<exists>visited' rs'. fare_inv visited' rs' best' \<and> pq rs' = []"
  proof (rule search_loop_invariant [of g e visited rs best best' fare_inv, OF run])
    show "fare_inv visited rs best" using pq best by (simp add: fare_inv_def)
  next
    fix visited rs best
    assume "fare_inv visited rs best"
    then show "fare_inv visited (rs\<lparr>pq := heappop_rest (pq rs)\<rparr>) best"
      using set_heappop_rest [of "pq rs"] by (auto simp: fare_inv_def)
  next
    fix visited rs best cur best1
    assume i: "fare_inv visited rs best" and ne: "pq rs \<noteq> []"
      and c: "record_candidate (heappop (pq rs)) (rs\<lparr>pq := heappop_rest (pq rs)\<rparr>) best = Inr best1"
    from i ne have "entry_ok (heappop (pq rs))" using heappop_mem by (auto simp: fare_inv_def)
    from record_candidate_best_ok [OF c this] i
    show "fare_inv (insert (entry_id (heappop (pq rs))) visited) (rs\<lparr>pq := heappop_rest (pq rs)\<rparr>) best1"
      using set_heappop_rest [of "pq rs"] by (auto simp: fare_inv_def)
  next
    fix visited rs best cur rs1
    assume i: "fare_inv visited rs best" and ne: "pq rs \<noteq> []"
      and r: "relax_all g (heappop (pq rs)) cur (dd_get (graph g) (entry_id (heappop (pq rs))))
                (rs\<lparr>pq := heappop_rest (pq rs)\<rparr>) = Inr rs1"
    from i ne have m: "entry_ok (heappop (pq rs))" using heappop_mem by (auto simp: fare_inv_def)
    have e: "\<forall>nbr \<in> set (dd_get (graph g) (entry_id (heappop (pq rs)))). edge_ok (snd nbr)"
      using g by (simp add: edges_ok_def)
    have p: "\<forall>x \<in> set (pq (rs\<lparr>pq := heappop_rest (pq rs)\<rparr>)). entry_ok x"
      using i set_heappop_rest [of "pq rs"] by (auto simp: fare_inv_def)
    from relax_all_entry_ok [OF r m e p] i
    show "fare_inv (insert (entry_id (heappop (pq rs))) visited) rs1 best"
      by (simp add: fare_inv_def)
  qed
  then show ?thesis by (auto simp: fare_inv_def)
qed

lemma search_from_all_best_ok:
  assumes "search_from_all g e starts best = Inr best'" and "edges_ok g" and "best_ok best"
  shows "best_ok best'"
  using assms
proof (induction starts arbitrary: best)
  case Nil
  then show ?case by simp
next
  case (Cons s starts)
  from Cons.prems(1) obtain b1 where
    b1: "search_loop g e {} (initial_run_state s) best = Inr b1"
    and rest: "search_from_all g e starts b1 = Inr best'"
    by (auto split: sum.splits)
  have "\<forall>x \<in> set (pq (initial_run_state s)). entry_ok x"
    by (simp add: initial_run_state_def entry_ok_def entry_count_def entry_segment_def
        entry_fare_def entry_path_def)
  from search_loop_best_ok [OF b1 Cons.prems(2) this Cons.prems(3)]
  have "best_ok b1" .
  from Cons.IH [OF rest Cons.prems(2) this] show ?case .
qed

lemma route_names_length: "route_names objs ids = Inr ns \<Longrightarrow> length ns = length ids"
  by (induction ids arbitrary: ns) (auto split: option.splits sum.splits)

lemma edge_set_add_ride_edges_ok:
  "edge_set (add_ride_edges l S gr) \<subseteq> edge_set gr \<union> {(u, v, e). edge_ok e}"
  by (induction l S gr rule: add_ride_edges.induct)
     (auto simp: edge_set_dd_append ride_edge_def edge_ok_def)

lemma edge_set_fold_add_line_ok:
  "edge_set (fold (add_line sts) ls gr) \<subseteq> edge_set gr \<union> {(u, v, e). edge_ok e}"
proof (induction ls arbitrary: gr)
  case Nil
  show ?case by simp
next
  case (Cons l ls)
  from Cons.IH [of "add_line sts l gr"] edge_set_add_ride_edges_ok [of l "sorted_stations sts l" gr]
  show ?case by (auto simp: add_line_def)
qed

lemma edges_ok_build_graph: "edges_ok (build_graph db)"
proof -
  have "edge_set (graph (build_graph db)) \<subseteq> {(u, v, e). edge_ok e}"
    using edge_set_fold_add_line_ok [of "db_stations db" "db_lines db" "[]"]
    by (auto simp: build_graph_def Let_def edge_set_fold_add_transfers edge_set_empty
        group_transfers_def transfer_edge_def edge_ok_def)
  then show ?thesis
    unfolding edges_ok_def edge_set_def by fastforce
qed

text \<open>
  C1, as the code computes it for a route without a line change: the search returns a
  count \<open>k\<close> of ride hops that is not negative, a route of \<open>k + 1\<close> names, and the fare 0.0
  when \<open>k = 0\<close> and 10.0 + 5.0 * max(0, k - 1) otherwise. The segment counter starts at 1
  for the source station, so the base fare covers the first hop only.
\<close>

theorem transfer_free_route_fare:
  assumes "find_shortest_path (build_graph db) a b = Inr (Some r)"
    and "lineChanges r = []"
  shows "0 \<le> totalStations r
       \<and> length (route r) = nat (totalStations r) + 1
       \<and> totalFare r = (if totalStations r = 0 then 0.0
                         else 10.0 + 5.0 * of_int (max 0 (totalStations r - 1)))"
proof -
  let ?g = "build_graph db"
  from assms(1) obtain starts best names n where
    s: "search_from_all ?g b starts initial_best = Inr best"
    and names: "route_names (station_id_to_obj ?g) (best_path_ids best) = Inr names"
    and n: "min_total_stations best = Some n"
    and r: "r = \<lparr>route = names, totalStations = n,
                 totalFare = (if n > 0 then best_fare best + 10.0 else best_fare best),
                 interchanges = remdups (best_interchanges best),
                 estimatedTime = float_str (best_time best) @ '' minutes'',
                 lineChanges = best_line_changes best\<rparr>"
    unfolding find_shortest_path_def
    by (auto split: option.splits if_splits sum.splits)
  have "best_ok initial_best" by (simp add: best_ok_def initial_best_def)
  from search_from_all_best_ok [OF s edges_ok_build_graph this] n
  have ok: "0 \<le> n" "best_fare best = 5 * of_int (max 0 (n - 1))"
    "length (best_path_ids best) = nat n + 1"
    by (simp_all add: best_ok_def)
  from route_names_length [OF names] ok r show ?thesis by auto
qed

theorem transfer_free_route_fare_witness:
  "find_shortest_path (build_graph four_station_line) ''A'' ''D'' =
     Inr (Some \<lparr>route = [''A'', ''B'', ''C'', ''D''], totalStations = 3, totalFare = 20.0,
                interchanges = [], estimatedTime = ''7.5 minutes'', lineChanges = []\<rparr>)
   \<and> (20.0 :: real) = 10.0 + 5.0 * of_int (max 0 (3 - 1))"
proof -
  have a: "find_shortest_path (build_graph four_station_line) ''A'' ''D'' =
     Inr (Some \<lparr>route = [''A'', ''B'', ''C'', ''D''], totalStations = 3, totalFare = 20.0,
                interchanges = [], estimatedTime = ''7.5 minutes'', lineChanges = []\<rparr>)"
    by code_simp
  from transfer_free_route_fare [OF a] a show ?thesis by simp
qed

text \<open>C1 as stated fails on a line of four stations: the route from A to D has no
  transfer and one segment of 3 ride hops, and its fare is 20.0, not
  10.0 + 2.0 * 0 + 5.0 * max(0, 3 - 2).\<close>

theorem fare_formula_fails_on_four_stations:
  "find_shortest_path (build_graph four_station_line) ''A'' ''D'' =
     Inr (Some \<lparr>route = [''A'', ''B'', ''C'', ''D''], totalStations = 3, totalFare = 20.0,
                interchanges = [], estimatedTime = ''7.5 minutes'', lineChanges = []\<rparr>)
   \<and> (20.0 :: real) \<noteq> 10.0 + 2.0 * 0 + 5.0 * of_int (max 0 (3 - 2))"
proof -
  have "find_shortest_path (build_graph four_station_line) ''A'' ''D'' =
     Inr (Some \<lparr>route = [''A'', ''B'', ''C'', ''D''], totalStations = 3, totalFare = 20.0,
                interchanges = [], estimatedTime = ''7.5 minutes'', lineChanges = []\<rparr>)"
    by code_simp
  then show ?thesis by simp
qed

section \<open>The search finds a route when a path exists\<close>

lemma entry_ids_after_pop:
  assumes "v \<in> entry_id ` set q"
  shows "v = entry_id (heappop q) \<or> v \<in> entry_id ` set (heappop_rest q)"
proof -
  from assms obtain x where x: "x \<in> set q" "v = entry_id x" by blast
  from set_heappop_cases [OF x(1)] x(2) show ?thesis by blast
qed

lemma extends_refl: "extends rs rs"
  by (simp add: extends_def)

lemma extends_trans: "extends rs rs1 \<Longrightarrow> extends rs1 rs2 \<Longrightarrow> extends rs rs2"
  unfolding extends_def by blast

lemma entry_id_pushed: "entry_id (pushed_entry m nbr v) = fst nbr"
  by (simp add: entry_id_def pushed_entry_def)

lemma entry_path_pushed: "entry_path (pushed_entry m nbr v) \<noteq> []"
  by (simp add: entry_path_def pushed_entry_def)

lemma relax_extends:
  assumes "relax g m cur nbr rs = Inr rs'"
  shows "extends rs rs' \<and> distances rs' (fst nbr) \<noteq> None"
proof -
  from assms obtain nb info v where
    "map_of (station_id_to_obj g) (fst nbr) = Some nb"
    and "path_info rs (entry_id m) = Some info"
    and "edge_values g cur nb (snd nbr) (entry_fare m) (entry_time m) (entry_segment m)
          (pi_interchanges info) (pi_line_changes info) = Inr v"
    and rs': "rs' = (if lt_inf (entry_count m + e_stations (snd nbr)) (distances rs (fst nbr))
            then \<lparr>pq = pq rs @ [pushed_entry m nbr v],
                  distances = (distances rs)(fst nbr \<mapsto> entry_count m + e_stations (snd nbr)),
                  path_info = (path_info rs)(fst nbr \<mapsto> pushed_info m nbr v)\<rparr>
            else rs)"
    by (rule relax_Inr)
  show ?thesis
  proof (cases "lt_inf (entry_count m + e_stations (snd nbr)) (distances rs (fst nbr))")
    case True
    with rs' show ?thesis
      by (auto simp: extends_def entry_id_pushed entry_path_pushed)
  next
    case False
    then have "distances rs (fst nbr) \<noteq> None"
      by (cases "distances rs (fst nbr)") (simp_all add: lt_inf_def)
    with False rs' show ?thesis by (simp add: extends_refl)
  qed
qed

lemma relax_all_extends:
  assumes "relax_all g m cur nbrs rs = Inr rs'"
  shows "extends rs rs' \<and> (\<forall>nbr \<in> set nbrs. distances rs' (fst nbr) \<noteq> None)"
  using assms
proof (induction nbrs arbitrary: rs)
  case Nil
  then show ?case by (simp add: extends_refl)
next
  case (Cons nbr nbrs)
  from Cons.prems obtain rs1 where r1: "relax g m cur nbr rs = Inr rs1"
    and rest: "relax_all g m cur nbrs rs1 = Inr rs'"
    by (auto split: sum.splits)
  from relax_extends [OF r1] have a: "extends rs rs1" "distances rs1 (fst nbr) \<noteq> None" by simp_all
  from Cons.IH [OF rest] have b: "extends rs1 rs'" "\<forall>nbr \<in> set nbrs. distances rs' (fst nbr) \<noteq> None"
    by simp_all
  from a(2) b(1) have "distances rs' (fst nbr) \<noteq> None" by (simp add: extends_def)
  with extends_trans [OF a(1) b(1)] b(2) show ?case by simp
qed

lemma comp_inv_intro:
  assumes "\<And>v. distances rs v \<noteq> None \<Longrightarrow> v \<in> visited \<or> v \<in> entry_id ` set (pq rs)"
    and "\<And>u v. u \<in> visited \<Longrightarrow> \<not> node_named g u e \<Longrightarrow> (u, v) \<in> edge_rel g \<Longrightarrow>
           distances rs v \<noteq> None"
    and "\<And>u. u \<in> visited \<Longrightarrow> node_named g u e \<Longrightarrow> best_path_ids best \<noteq> []"
    and "\<And>x. x \<in> set (pq rs) \<Longrightarrow> entry_path x \<noteq> []"
    and "min_total_stations best \<noteq> None \<Longrightarrow> best_path_ids best \<noteq> []"
    and "distances rs start \<noteq> None"
  shows "comp_inv g e start visited rs best"
  unfolding comp_inv_def using assms by blast

lemma comp_inv_elims:
  assumes "comp_inv g e start visited rs best"
  shows "distances rs v \<noteq> None \<Longrightarrow> v \<in> visited \<or> v \<in> entry_id ` set (pq rs)"
    and "u \<in> visited \<Longrightarrow> \<not> node_named g u e \<Longrightarrow> (u, v) \<in> edge_rel g \<Longrightarrow> distances rs v \<noteq> None"
    and "u \<in> visited \<Longrightarrow> node_named g u e \<Longrightarrow> best_path_ids best \<noteq> []"
    and "x \<in> set (pq rs) \<Longrightarrow> entry_path x \<noteq> []"
    and "min_total_stations best \<noteq> None \<Longrightarrow> best_path_ids best \<noteq> []"
    and "distances rs start \<noteq> None"
  using assms unfolding comp_inv_def by blast+

lemma comp_inv_skip:
  assumes i: "comp_inv g e start visited rs best" and ne: "pq rs \<noteq> []"
    and vis: "entry_id (heappop (pq rs)) \<in> visited"
  shows "comp_inv g e start visited (rs\<lparr>pq := heappop_rest (pq rs)\<rparr>) best"
proof (rule comp_inv_intro)
  fix v assume "distances (rs\<lparr>pq := heappop_rest (pq rs)\<rparr>) v \<noteq> None"
  then have "distances rs v \<noteq> None" by simp
  from comp_inv_elims(1) [OF i this] vis entry_ids_after_pop [of v "pq rs"]
  show "v \<in> visited \<or> v \<in> entry_id ` set (pq (rs\<lparr>pq := heappop_rest (pq rs)\<rparr>))"
    by auto
next
  fix u v assume "u \<in> visited" "\<not> node_named g u e" "(u, v) \<in> edge_rel g"
  from comp_inv_elims(2) [OF i this]
  show "distances (rs\<lparr>pq := heappop_rest (pq rs)\<rparr>) v \<noteq> None" by simp
next
  fix u assume "u \<in> visited" "node_named g u e"
  from comp_inv_elims(3) [OF i this] show "best_path_ids best \<noteq> []" .
next
  fix x assume "x \<in> set (pq (rs\<lparr>pq := heappop_rest (pq rs)\<rparr>))"
  then have "x \<in> set (pq rs)" using set_heappop_rest [of "pq rs"] by auto
  from comp_inv_elims(4) [OF i this] show "entry_path x \<noteq> []" .
next
  assume "min_total_stations best \<noteq> None"
  from comp_inv_elims(5) [OF i this] show "best_path_ids best \<noteq> []" .
next
  from comp_inv_elims(6) [OF i]
  show "distances (rs\<lparr>pq := heappop_rest (pq rs)\<rparr>) start \<noteq> None" by simp
qed

lemma record_candidate_path:
  assumes "record_candidate m rs best = Inr best'" "entry_path m \<noteq> []"
    "min_total_stations best \<noteq> None \<longrightarrow> best_path_ids best \<noteq> []"
  shows "best_path_ids best' \<noteq> [] \<and> min_total_stations best' \<noteq> None"
  using assms
  by (cases m)
     (auto simp: record_candidate_def entry_path_def lt_inf_def split: option.splits if_splits)

lemma comp_inv_candidate:
  assumes i: "comp_inv g e start visited rs best" and ne: "pq rs \<noteq> []"
    and c: "record_candidate (heappop (pq rs)) (rs\<lparr>pq := heappop_rest (pq rs)\<rparr>) best = Inr best1"
    and cur: "map_of (station_id_to_obj g) (entry_id (heappop (pq rs))) = Some cur" "s_name cur = e"
  shows "comp_inv g e start (insert (entry_id (heappop (pq rs))) visited)
           (rs\<lparr>pq := heappop_rest (pq rs)\<rparr>) best1"
proof (rule comp_inv_intro)
  let ?u = "entry_id (heappop (pq rs))"
  let ?rs0 = "rs\<lparr>pq := heappop_rest (pq rs)\<rparr>"
  from ne have "heappop (pq rs) \<in> set (pq rs)" by (rule heappop_mem)
  from comp_inv_elims(4) [OF i this] have p: "entry_path (heappop (pq rs)) \<noteq> []" .
  have "min_total_stations best \<noteq> None \<longrightarrow> best_path_ids best \<noteq> []"
    using comp_inv_elims(5) [OF i] by blast
  from record_candidate_path [OF c p this]
  have b: "best_path_ids best1 \<noteq> []" "min_total_stations best1 \<noteq> None" by simp_all
  have n: "node_named g ?u e" using cur by (simp add: node_named_def)
  {
    fix v assume "distances ?rs0 v \<noteq> None"
    then have "distances rs v \<noteq> None" by simp
    from comp_inv_elims(1) [OF i this] entry_ids_after_pop [of v "pq rs"]
    show "v \<in> insert ?u visited \<or> v \<in> entry_id ` set (pq ?rs0)" by auto
  }
  {
    fix u v assume u: "u \<in> insert ?u visited" "\<not> node_named g u e" "(u, v) \<in> edge_rel g"
    with n have "u \<in> visited" by auto
    from comp_inv_elims(2) [OF i this u(2,3)] show "distances ?rs0 v \<noteq> None" by simp
  }
  {
    fix u assume "u \<in> insert ?u visited" "node_named g u e"
    show "best_path_ids best1 \<noteq> []" by (rule b(1))
  }
  {
    fix x assume "x \<in> set (pq ?rs0)"
    then have "x \<in> set (pq rs)" using set_heappop_rest [of "pq rs"] by auto
    from comp_inv_elims(4) [OF i this] show "entry_path x \<noteq> []" .
  }
  {
    assume "min_total_stations best1 \<noteq> None"
    show "best_path_ids best1 \<noteq> []" by (rule b(1))
  }
  from comp_inv_elims(6) [OF i] show "distances ?rs0 start \<noteq> None" by simp
qed

lemma comp_inv_expand:
  assumes i: "comp_inv g e start visited rs best" and ne: "pq rs \<noteq> []"
    and r: "relax_all g (heappop (pq rs)) cur (dd_get (graph g) (entry_id (heappop (pq rs))))
              (rs\<lparr>pq := heappop_rest (pq rs)\<rparr>) = Inr rs1"
    and cur: "map_of (station_id_to_obj g) (entry_id (heappop (pq rs))) = Some cur" "s_name cur \<noteq> e"
  shows "comp_inv g e start (insert (entry_id (heappop (pq rs))) visited) rs1 best"
proof (rule comp_inv_intro)
  let ?u = "entry_id (heappop (pq rs))"
  let ?rs0 = "rs\<lparr>pq := heappop_rest (pq rs)\<rparr>"
  from relax_all_extends [OF r]
  have ext: "extends ?rs0 rs1"
    and nb: "\<forall>nbr \<in> set (dd_get (graph g) ?u). distances rs1 (fst nbr) \<noteq> None"
    by simp_all
  have mono: "distances rs1 v \<noteq> None" if "distances rs v \<noteq> None" for v
    using ext that by (simp add: extends_def)
  have c_new: "\<not> node_named g ?u e" using cur by (simp add: node_named_def)
  {
    fix v assume v: "distances rs1 v \<noteq> None"
    show "v \<in> insert ?u visited \<or> v \<in> entry_id ` set (pq rs1)"
    proof (cases "distances rs v \<noteq> None")
      case True
      from comp_inv_elims(1) [OF i True] entry_ids_after_pop [of v "pq rs"]
      have "v \<in> insert ?u visited \<or> v \<in> entry_id ` set (pq ?rs0)" by auto
      moreover have "set (pq ?rs0) \<subseteq> set (pq rs1)" using ext by (simp add: extends_def)
      ultimately show ?thesis by blast
    next
      case False
      from ext have "distances rs1 v \<noteq> None \<longrightarrow>
          distances ?rs0 v \<noteq> None \<or> v \<in> entry_id ` set (pq rs1)"
        unfolding extends_def by blast
      with False v show ?thesis by simp
    qed
  }
  {
    fix u v assume u: "u \<in> insert ?u visited" "\<not> node_named g u e" "(u, v) \<in> edge_rel g"
    show "distances rs1 v \<noteq> None"
    proof (cases "u = ?u")
      case True
      with u(3) obtain ew where "(v, ew) \<in> set (dd_get (graph g) ?u)"
        by (auto simp: edge_rel_def)
      with nb show ?thesis by force
    next
      case False
      with u(1) have "u \<in> visited" by simp
      from comp_inv_elims(2) [OF i this u(2,3)] show ?thesis by (rule mono)
    qed
  }
  {
    fix u assume u: "u \<in> insert ?u visited" "node_named g u e"
    with c_new have "u \<in> visited" by auto
    from comp_inv_elims(3) [OF i this u(2)] show "best_path_ids best \<noteq> []" .
  }
  {
    fix x assume x: "x \<in> set (pq rs1)"
    show "entry_path x \<noteq> []"
    proof (cases "x \<in> set (pq ?rs0)")
      case True
      then have "x \<in> set (pq rs)" using set_heappop_rest [of "pq rs"] by auto
      from comp_inv_elims(4) [OF i this] show ?thesis .
    next
      case False
      with ext x show ?thesis by (auto simp: extends_def)
    qed
  }
  {
    assume "min_total_stations best \<noteq> None"
    from comp_inv_elims(5) [OF i this] show "best_path_ids best \<noteq> []" .
  }
  from comp_inv_elims(6) [OF i] show "distances rs1 start \<noteq> None" by (rule mono)
qed

lemma comp_inv_final:
  assumes i: "comp_inv g e start visited rs best" and emp: "pq rs = []"
    and path: "(start, d) \<in> (edge_rel g)\<^sup>*" and d: "node_named g d e"
  shows "best_path_ids best \<noteq> []"
proof -
  have vis: "v \<in> visited" if "distances rs v \<noteq> None" for v
    using comp_inv_elims(1) [OF i that] emp by simp
  have "distances rs u \<noteq> None \<longrightarrow> best_path_ids best \<noteq> []" if "(u, d) \<in> (edge_rel g)\<^sup>*" for u
    using that
  proof (induction rule: converse_rtrancl_induct)
    case base
    show ?case
    proof
      assume "distances rs d \<noteq> None"
      then have "d \<in> visited" by (rule vis)
      from comp_inv_elims(3) [OF i this d] show "best_path_ids best \<noteq> []" .
    qed
  next
    case (step u w)
    show ?case
    proof
      assume u: "distances rs u \<noteq> None"
      then have uv: "u \<in> visited" by (rule vis)
      show "best_path_ids best \<noteq> []"
      proof (cases "node_named g u e")
        case True
        from comp_inv_elims(3) [OF i uv True] show ?thesis .
      next
        case False
        from comp_inv_elims(2) [OF i uv False step.hyps(1)] have "distances rs w \<noteq> None" .
        with step.IH show ?thesis by simp
      qed
    qed
  qed
  from this [OF path] comp_inv_elims(6) [OF i] show ?thesis by simp
qed

lemma search_loop_complete:
  assumes run: "search_loop g e {} (initial_run_state s) best = Inr best'"
    and best: "min_total_stations best \<noteq> None \<longrightarrow> best_path_ids best \<noteq> []"
  shows "(min_total_stations best' \<noteq> None \<longrightarrow> best_path_ids best' \<noteq> [])
       \<and> ((s_id s, d) \<in> (edge_rel g)\<^sup>* \<and> node_named g d e \<longrightarrow> best_path_ids best' \<noteq> [])"
proof -
  have "\<exists>visited' rs'. comp_inv g e (s_id s) visited' rs' best' \<and> pq rs' = []"
  proof (rule search_loop_invariant
           [of g e "{}" "initial_run_state s" best best' "comp_inv g e (s_id s)", OF run])
    show "comp_inv g e (s_id s) {} (initial_run_state s) best"
      using best
      by (intro comp_inv_intro)
         (simp_all add: initial_run_state_def entry_id_def entry_path_def split: if_splits)
  next
    fix visited rs best
    assume "comp_inv g e (s_id s) visited rs best" "pq rs \<noteq> []"
      "entry_id (heappop (pq rs)) \<in> visited"
    then show "comp_inv g e (s_id s) visited (rs\<lparr>pq := heappop_rest (pq rs)\<rparr>) best"
      by (rule comp_inv_skip)
  next
    fix visited rs best cur best1
    assume "comp_inv g e (s_id s) visited rs best" "pq rs \<noteq> []"
      "map_of (station_id_to_obj g) (entry_id (heappop (pq rs))) = Some cur" "s_name cur = e"
      "record_candidate (heappop (pq rs)) (rs\<lparr>pq := heappop_rest (pq rs)\<rparr>) best = Inr best1"
    then show "comp_inv g e (s_id s) (insert (entry_id (heappop (pq rs))) visited)
                 (rs\<lparr>pq := heappop_rest (pq rs)\<rparr>) best1"
      by (intro comp_inv_candidate)
  next
    fix visited rs best cur rs1
    assume "comp_inv g e (s_id s) visited rs best" "pq rs \<noteq> []"
      "map_of (station_id_to_obj g) (entry_id (heappop (pq rs))) = Some cur" "s_name cur \<noteq> e"
      "relax_all g (heappop (pq rs)) cur (dd_get (graph g) (entry_id (heappop (pq rs))))
         (rs\<lparr>pq := heappop_rest (pq rs)\<rparr>) = Inr rs1"
    then show "comp_inv g e (s_id s) (insert (entry_id (heappop (pq rs))) visited) rs1 best"
      by (intro comp_inv_expand)
  qed
  then obtain visited' rs' where i: "comp_inv g e (s_id s) visited' rs' best'" and emp: "pq rs' = []"
    by blast
  from comp_inv_elims(5) [OF i] comp_inv_final [OF i emp] show ?thesis by blast
qed

lemma search_from_all_complete:
  assumes "search_from_all g e starts best = Inr best'"
    and "min_total_stations best \<noteq> None \<longrightarrow> best_path_ids best \<noteq> []"
  shows "(min_total_stations best' \<noteq> None \<longrightarrow> best_path_ids best' \<noteq> [])
       \<and> (best_path_ids best \<noteq> [] \<longrightarrow> best_path_ids best' \<noteq> [])
       \<and> (\<forall>s \<in> set starts. \<forall>d. (s_id s, d) \<in> (edge_rel g)\<^sup>* \<and> node_named g d e \<longrightarrow>
             best_path_ids best' \<noteq> [])"
  using assms
proof (induction starts arbitrary: best)
  case Nil
  then show ?case by simp
next
  case (Cons s starts)
  from Cons.prems(1) obtain b1 where
    b1: "search_loop g e {} (initial_run_state s) best = Inr b1"
    and rest: "search_from_all g e starts b1 = Inr best'"
    by (auto split: sum.splits)
  have e1: "min_total_stations b1 \<noteq> None \<longrightarrow> best_path_ids b1 \<noteq> []"
    using search_loop_complete [OF b1 Cons.prems(2)] by blast
  have r1: "best_path_ids b1 \<noteq> []" if "(s_id s, d) \<in> (edge_rel g)\<^sup>*" "node_named g d e" for d
    using search_loop_complete [OF b1 Cons.prems(2), of d] that by blast
  have k1: "best_path_ids b1 \<noteq> []" if "best_path_ids best \<noteq> []"
    using search_loop_improves [OF b1] e1 that by auto
  from Cons.IH [OF rest e1]
  have ih: "min_total_stations best' \<noteq> None \<longrightarrow> best_path_ids best' \<noteq> []"
    "best_path_ids b1 \<noteq> [] \<longrightarrow> best_path_ids best' \<noteq> []"
    "\<forall>s \<in> set starts. \<forall>d. (s_id s, d) \<in> (edge_rel g)\<^sup>* \<and> node_named g d e \<longrightarrow>
       best_path_ids best' \<noteq> []"
    by blast+
  show ?case
  proof (intro conjI ballI allI impI)
    assume "min_total_stations best' \<noteq> None"
    with ih(1) show "best_path_ids best' \<noteq> []" by blast
  next
    assume "best_path_ids best \<noteq> []"
    with k1 ih(2) show "best_path_ids best' \<noteq> []" by blast
  next
    fix s' d assume s': "s' \<in> set (s # starts)"
      and d: "(s_id s', d) \<in> (edge_rel g)\<^sup>* \<and> node_named g d e"
    show "best_path_ids best' \<noteq> []"
    proof (cases "s' = s")
      case True
      with d r1 [of d] ih(2) show ?thesis by blast
    next
      case False
      with s' have "s' \<in> set starts" by simp
      with ih(3) d show ?thesis by blast
    qed
  qed
qed

lemma find_shortest_path_complete:
  assumes none: "find_shortest_path g a b = Inr None" and c: "connects g a b"
    and en: "map_of (station_map g) b = Some en" "en \<noteq> []"
  shows False
proof -
  from c obtain s d where s: "s \<in> set (dd_get (station_map g) a)"
    and d: "(s_id s, d) \<in> (edge_rel g)\<^sup>*" "node_named g d b"
    by (auto simp: connects_def)
  from s obtain starts where st: "map_of (station_map g) a = Some starts" "s \<in> set starts"
    by (cases "map_of (station_map g) a") (auto simp: dd_get_def)
  then have ne: "starts \<noteq> []" by auto
  from none st(1) en ne obtain best where
    run: "search_from_all g b starts initial_best = Inr best"
    and emp: "best_path_ids best = []"
    unfolding find_shortest_path_def
    by (auto split: sum.splits if_splits option.splits)
  have "min_total_stations initial_best \<noteq> None \<longrightarrow> best_path_ids initial_best \<noteq> []"
    by (simp add: initial_best_def)
  from search_from_all_complete [OF run this] st(2) d have "best_path_ids best \<noteq> []"
    by blast
  with emp show False by simp
qed

lemma name_index_None_iff:
  "map_of (station_map (build_graph db)) n = None \<longleftrightarrow>
     find (\<lambda>s. s_name s = n) (db_stations db) = None"
  by (auto simp: build_graph_def Let_def populate_station_map_def map_of_fold_station_map
      find_None_iff filter_empty_conv)

lemma name_index_nonempty:
  "map_of (station_map (build_graph db)) n = Some grp \<Longrightarrow> grp \<noteq> []"
  by (auto simp: build_graph_def Let_def populate_station_map_def map_of_fold_station_map
      dd_get_def split: if_splits)

lemma connects_three_station_line:
  "connects (build_graph (three_station_line 1 2 3 red_line)) ''A'' ''C''"
proof -
  let ?g = "build_graph (three_station_line 1 2 3 red_line)"
  have s: "mk_station 1 ''A'' 1 1 False \<in> set (dd_get (station_map ?g) ''A'')" by code_simp
  have "(2, ride_edge (mk_station 1 ''A'' 1 1 False) red_line) \<in> set (dd_get (graph ?g) 1)"
    by code_simp
  then have e1: "(1, 2) \<in> edge_rel ?g" unfolding edge_rel_def by blast
  have "(3, ride_edge (mk_station 2 ''B'' 1 2 False) red_line) \<in> set (dd_get (graph ?g) 2)"
    by code_simp
  then have e2: "(2, 3) \<in> edge_rel ?g" unfolding edge_rel_def by blast
  from e1 e2 have p: "(s_id (mk_station 1 ''A'' 1 1 False), 3) \<in> (edge_rel ?g)\<^sup>*"
    by (simp add: mk_station_def)
  have "map_of (station_id_to_obj ?g) 3 = Some (mk_station 3 ''C'' 1 3 False)" by code_simp
  then have n: "node_named ?g 3 ''C''" by (simp add: node_named_def mk_station_def)
  from s p n show ?thesis unfolding connects_def by blast
qed

text \<open>
  When the graph is the one built from the station records of the request's session, the
  name index has an entry exactly for the names with a record, and the answers of the
  endpoint can be read off the index: a source without an entry gives status 400 naming
  the source; a known source and a destination without an entry give status 400 naming
  the destination; and status 404 is returned only when both names have an entry and no
  path of the graph leads from a node of the source name to a node of the destination
  name.
\<close>

lemma unknown_station_in_sync:
  assumes "source r \<noteq> destination r"
  shows "(map_of (station_map (build_graph db)) (source r) = None \<longrightarrow>
            find_metro_route (Some (build_graph db)) db r =
              Inl (HTTPException 400
                    (''Invalid source station name: '' @ quoted (source r) @ '' not found.'')))
       \<and> (map_of (station_map (build_graph db)) (source r) \<noteq> None
          \<and> map_of (station_map (build_graph db)) (destination r) = None \<longrightarrow>
            find_metro_route (Some (build_graph db)) db r =
              Inl (HTTPException 400
                    (''Invalid destination station name: '' @ quoted (destination r)
                     @ '' not found.'')))
       \<and> (find_metro_route (Some (build_graph db)) db r = Inl (HTTPException 404 msg) \<longrightarrow>
            map_of (station_map (build_graph db)) (source r) \<noteq> None
            \<and> map_of (station_map (build_graph db)) (destination r) \<noteq> None
            \<and> \<not> connects (build_graph db) (source r) (destination r))"
proof -
  let ?g = "build_graph db"
  have 1: "find_metro_route (Some ?g) db r =
              Inl (HTTPException 400
                    (''Invalid source station name: '' @ quoted (source r) @ '' not found.''))"
    if "map_of (station_map ?g) (source r) = None"
  proof -
    from that have "find (\<lambda>s. s_name s = source r) (db_stations db) = None"
      by (simp add: name_index_None_iff)
    with assms show ?thesis by (simp add: find_metro_route_def)
  qed
  have 2: "find_metro_route (Some ?g) db r =
              Inl (HTTPException 400
                    (''Invalid destination station name: '' @ quoted (destination r)
                     @ '' not found.''))"
    if "map_of (station_map ?g) (source r) \<noteq> None"
      and "map_of (station_map ?g) (destination r) = None"
  proof -
    from that have "find (\<lambda>s. s_name s = source r) (db_stations db) \<noteq> None"
      "find (\<lambda>s. s_name s = destination r) (db_stations db) = None"
      by (simp_all add: name_index_None_iff)
    with assms show ?thesis by (simp add: find_metro_route_def)
  qed
  have 3: "map_of (station_map ?g) (source r) \<noteq> None
            \<and> map_of (station_map ?g) (destination r) \<noteq> None
            \<and> \<not> connects ?g (source r) (destination r)"
    if nf: "find_metro_route (Some ?g) db r = Inl (HTTPException 404 msg)"
  proof -
    from nf assms have known: "find (\<lambda>s. s_name s = source r) (db_stations db) \<noteq> None"
      "find (\<lambda>s. s_name s = destination r) (db_stations db) \<noteq> None"
      by (auto simp: find_metro_route_def split: if_splits)
    with nf assms have none: "find_shortest_path ?g (source r) (destination r) = Inr None"
      by (auto simp: find_metro_route_def split: sum.splits option.splits)
    from known have idx: "map_of (station_map ?g) (source r) \<noteq> None"
      "map_of (station_map ?g) (destination r) \<noteq> None"
      by (simp_all add: name_index_None_iff)
    then obtain en where en: "map_of (station_map ?g) (destination r) = Some en"
      by blast
    from find_shortest_path_complete [OF none _ en name_index_nonempty [OF en]]
    have "\<not> connects ?g (source r) (destination r)" by blast
    with idx show ?thesis by simp
  qed
  from 1 2 3 show ?thesis by blast
qed

text \<open>The graph of a request is the global \<^verbatim>\<open>metro_graph\<close>, built at startup or by the last
  management call of this process; the names are checked against the records of the
  request's session (lines 392-398), not against the name index of the graph.\<close>

lemma node_named_indexed:
  assumes "node_named (build_graph db) d b"
  shows "map_of (station_map (build_graph db)) b = Some (name_group (db_stations db) b)
       \<and> name_group (db_stations db) b \<noteq> []"
proof -
  from assms obtain st where "find (\<lambda>s. s_id s = d) (rev (db_stations db)) = Some st"
    and b: "s_name st = b"
    by (auto simp: node_named_def id_index_lookup)
  then have "st \<in> set (db_stations db)"
    by (auto dest: find_SomeD)
  with b have "name_group (db_stations db) b \<noteq> []"
    by (auto simp: name_group_def filter_empty_conv)
  then show ?thesis by (simp add: name_index_lookup)
qed

lemma not_found_not_connected:
  assumes "find_shortest_path (build_graph db) a b = Inr None"
  shows "\<not> connects (build_graph db) a b"
proof
  assume c: "connects (build_graph db) a b"
  then obtain d where "node_named (build_graph db) d b" by (auto simp: connects_def)
  from node_named_indexed [OF this] find_shortest_path_complete [OF assms c]
  show False by blast
qed

lemma not_indexed_not_found:
  assumes "map_of (station_map g) a = None \<or> map_of (station_map g) b = None"
  shows "find_shortest_path g a b = Inr None"
  using assms by (auto simp: find_shortest_path_def split: option.splits)

text \<open>C8 as stated fails when the graph is older than the records: with the graph of the
  line A, B, C and a session in which the station D has been added, the name D has no
  entry in the name index, and the query from A to D is answered with status 404, not
  with status 400.\<close>

theorem stale_graph_gives_not_found:
  "map_of (station_map (build_graph (three_station_line 1 2 3 red_line))) ''D'' = None
   \<and> find_metro_route (Some (build_graph (three_station_line 1 2 3 red_line))) four_station_line
        \<lparr>source = ''A'', destination = ''D''\<rparr> =
      Inl (HTTPException 404
            (''No route found between '' @ quoted ''A'' @ '' and '' @ quoted ''D'' @ ''.''))"
  by code_simp

text \<open>
  C8, as the code behaves, for every graph \<open>g\<close>, every session \<open>db\<close> and every query with
  distinct names: a source name without a station record in the session gives status 400
  naming the source; a source with a record and a destination without one give status
  400 naming the destination, whatever the name index of the graph holds. When both
  names have a record and one of them has no entry in the name index of the graph, the
  answer is status 404. Status 404 is returned only when both names have a record and
  the search returns nothing; for a graph that the builder made (from any records
  \<open>db'\<close>) the search returns nothing only when no path of the graph leads from a node of
  the source name to a node of the destination name.
\<close>

theorem missing_record_or_not_found:
  assumes "source r \<noteq> destination r"
  shows "(find (\<lambda>s. s_name s = source r) (db_stations db) = None \<longrightarrow>
            find_metro_route (Some g) db r =
              Inl (HTTPException 400
                    (''Invalid source station name: '' @ quoted (source r) @ '' not found.'')))
       \<and> (find (\<lambda>s. s_name s = source r) (db_stations db) \<noteq> None
          \<and> find (\<lambda>s. s_name s = destination r) (db_stations db) = None \<longrightarrow>
            find_metro_route (Some g) db r =
              Inl (HTTPException 400
                    (''Invalid destination station name: '' @ quoted (destination r)
                     @ '' not found.'')))
       \<and> (find (\<lambda>s. s_name s = source r) (db_stations db) \<noteq> None
          \<and> find (\<lambda>s. s_name s = destination r) (db_stations db) \<noteq> None
          \<and> (map_of (station_map g) (source r) = None
             \<or> map_of (station_map g) (destination r) = None) \<longrightarrow>
            find_metro_route (Some g) db r =
              Inl (HTTPException 404
                    (''No route found between '' @ quoted (source r) @ '' and ''
                     @ quoted (destination r) @ ''.'')))
       \<and> (find_metro_route (Some g) db r = Inl (HTTPException 404 msg) \<longrightarrow>
            find (\<lambda>s. s_name s = source r) (db_stations db) \<noteq> None
            \<and> find (\<lambda>s. s_name s = destination r) (db_stations db) \<noteq> None
            \<and> find_shortest_path g (source r) (destination r) = Inr None)
       \<and> (find_metro_route (Some (build_graph db')) db r = Inl (HTTPException 404 msg') \<longrightarrow>
            \<not> connects (build_graph db') (source r) (destination r))"
proof -
  have 1: "find_metro_route (Some g) db r =
              Inl (HTTPException 400
                    (''Invalid source station name: '' @ quoted (source r) @ '' not found.''))"
    if "find (\<lambda>s. s_name s = source r) (db_stations db) = None"
    using that assms by (simp add: find_metro_route_def)
  have 2: "find_metro_route (Some g) db r =
              Inl (HTTPException 400
                    (''Invalid destination station name: '' @ quoted (destination r)
                     @ '' not found.''))"
    if "find (\<lambda>s. s_name s = source r) (db_stations db) \<noteq> None"
      and "find (\<lambda>s. s_name s = destination r) (db_stations db) = None"
    using that assms by (simp add: find_metro_route_def)
  have 3: "find_metro_route (Some g) db r =
              Inl (HTTPException 404
                    (''No route found between '' @ quoted (source r) @ '' and ''
                     @ quoted (destination r) @ ''.''))"
    if "find (\<lambda>s. s_name s = source r) (db_stations db) \<noteq> None"
      and "find (\<lambda>s. s_name s = destination r) (db_stations db) \<noteq> None"
      and "map_of (station_map g) (source r) = None
             \<or> map_of (station_map g) (destination r) = None"
  proof -
    from that(3) have "find_shortest_path g (source r) (destination r) = Inr None"
      by (rule not_indexed_not_found)
    with that(1,2) assms show ?thesis by (simp add: find_metro_route_def)
  qed
  have 4: "find (\<lambda>s. s_name s = source r) (db_stations db) \<noteq> None
            \<and> find (\<lambda>s. s_name s = destination r) (db_stations db) \<noteq> None
            \<and> find_shortest_path h (source r) (destination r) = Inr None"
    if nf: "find_metro_route (Some h) db r = Inl (HTTPException 404 m)" for h m
  proof -
    from nf assms have known: "find (\<lambda>s. s_name s = source r) (db_stations db) \<noteq> None"
      "find (\<lambda>s. s_name s = destination r) (db_stations db) \<noteq> None"
      by (auto simp: find_metro_route_def split: if_splits)
    with nf assms have "find_shortest_path h (source r) (destination r) = Inr None"
      by (auto simp: find_metro_route_def split: sum.splits option.splits)
    with known show ?thesis by simp
  qed
  have 5: "\<not> connects (build_graph db') (source r) (destination r)"
    if nf: "find_metro_route (Some (build_graph db')) db r = Inl (HTTPException 404 msg')"
  proof -
    from 4 [OF nf] have "find_shortest_path (build_graph db') (source r) (destination r) = Inr None"
      by simp
    then show ?thesis by (rule not_found_not_connected)
  qed
  show ?thesis
    apply (intro conjI)
        apply (rule impI, erule 1)
       apply (rule impI, elim conjE, erule (1) 2)
      apply (rule impI, elim conjE, erule (2) 3)
     apply (rule impI, erule 4)
    apply (rule impI, erule 5)
    done
qed

theorem missing_record_or_not_found_witness:
  "''Nowhere'' \<noteq> ''D''
   \<and> find (\<lambda>s. s_name s = ''Nowhere'') (db_stations half_flagged_db) = None
   \<and> find_metro_route (Some (build_graph half_flagged_db)) half_flagged_db
        \<lparr>source = ''Nowhere'', destination = ''D''\<rparr> =
      Inl (HTTPException 400
            (''Invalid source station name: '' @ quoted ''Nowhere'' @ '' not found.''))
   \<and> find (\<lambda>s. s_name s = ''A'') (db_stations half_flagged_db) \<noteq> None
   \<and> find_metro_route (Some (build_graph half_flagged_db)) half_flagged_db
        \<lparr>source = ''A'', destination = ''Nowhere''\<rparr> =
      Inl (HTTPException 400
            (''Invalid destination station name: '' @ quoted ''Nowhere'' @ '' not found.''))
   \<and> find (\<lambda>s. s_name s = ''A'') (db_stations four_station_line) \<noteq> None
   \<and> find (\<lambda>s. s_name s = ''D'') (db_stations four_station_line) \<noteq> None
   \<and> map_of (station_map (build_graph (three_station_line 1 2 3 red_line))) ''D'' = None
   \<and> find_metro_route (Some (build_graph (three_station_line 1 2 3 red_line))) four_station_line
        \<lparr>source = ''A'', destination = ''D''\<rparr> =
      Inl (HTTPException 404
            (''No route found between '' @ quoted ''A'' @ '' and '' @ quoted ''D'' @ ''.''))
   \<and> find_metro_route (Some (build_graph half_flagged_db)) half_flagged_db
        \<lparr>source = ''A'', destination = ''D''\<rparr> =
      Inl (HTTPException 404
            (''No route found between '' @ quoted ''A'' @ '' and '' @ quoted ''D'' @ ''.''))
   \<and> find_shortest_path (build_graph half_flagged_db) ''A'' ''D'' = Inr None
   \<and> \<not> connects (build_graph half_flagged_db) ''A'' ''D''"
proof -
  let ?g = "build_graph half_flagged_db"
  let ?old = "build_graph (three_station_line 1 2 3 red_line)"
  have a: "find (\<lambda>s. s_name s = ''Nowhere'') (db_stations half_flagged_db) = None" by code_simp
  have b: "find (\<lambda>s. s_name s = ''A'') (db_stations half_flagged_db) \<noteq> None" by code_simp
  have c: "find (\<lambda>s. s_name s = ''A'') (db_stations four_station_line) \<noteq> None"
    "find (\<lambda>s. s_name s = ''D'') (db_stations four_station_line) \<noteq> None"
    by code_simp+
  have d: "map_of (station_map ?old) ''D'' = None" by code_simp
  have e: "find_metro_route (Some ?g) half_flagged_db \<lparr>source = ''A'', destination = ''D''\<rparr> =
      Inl (HTTPException 404
            (''No route found between '' @ quoted ''A'' @ '' and '' @ quoted ''D'' @ ''.''))"
    by code_simp
  from missing_record_or_not_found
         [where r = "\<lparr>source = ''Nowhere'', destination = ''D''\<rparr>" and db = half_flagged_db
            and g = "?g"] a
  have 1: "find_metro_route (Some ?g) half_flagged_db \<lparr>source = ''Nowhere'', destination = ''D''\<rparr> =
      Inl (HTTPException 400
            (''Invalid source station name: '' @ quoted ''Nowhere'' @ '' not found.''))"
    by simp
  from missing_record_or_not_found
         [where r = "\<lparr>source = ''A'', destination = ''Nowhere''\<rparr>" and db = half_flagged_db
            and g = "?g"] a b
  have 2: "find_metro_route (Some ?g) half_flagged_db \<lparr>source = ''A'', destination = ''Nowhere''\<rparr> =
      Inl (HTTPException 400
            (''Invalid destination station name: '' @ quoted ''Nowhere'' @ '' not found.''))"
    by simp
  from missing_record_or_not_found
         [where r = "\<lparr>source = ''A'', destination = ''D''\<rparr>" and db = four_station_line
            and g = "?old"] c d
  have 3: "find_metro_route (Some ?old) four_station_line \<lparr>source = ''A'', destination = ''D''\<rparr> =
      Inl (HTTPException 404
            (''No route found between '' @ quoted ''A'' @ '' and '' @ quoted ''D'' @ ''.''))"
    by simp
  from missing_record_or_not_found
         [where r = "\<lparr>source = ''A'', destination = ''D''\<rparr>" and db = half_flagged_db
            and g = "?g" and db' = half_flagged_db] e
  have 4: "find_shortest_path ?g ''A'' ''D'' = Inr None" "\<not> connects ?g ''A'' ''D''"
    by simp_all
  from a b c d e 1 2 3 4 show ?thesis by simp
qed

end
